theory Spec2Isabelle
  imports Main "HOL-Library.Word"
begin

section \<open>JavaScript values used by the provider\<close>

text \<open>
  A JavaScript string is a sequence of UTF-16 code units, each a number below \<open>2 ^ 16\<close>.
  Nothing below computes with a code unit outside a range it has just tested, so the
  code units are kept as natural numbers. Literals of the source are ASCII and are written
  through \<open>ascii\<close>.
\<close>

type_synonym code_unit = nat

type_synonym ustring = "code_unit list"

definition ascii :: "string \<Rightarrow> ustring" where
  "ascii s = map of_char s"

text \<open>
  A Number is an IEEE double. The provider only ever holds integral doubles, NaN and the
  infinities; \<open>Num i\<close> is the double whose value is the integer \<open>i\<close>.
\<close>

datatype number = NaN | PosInf | NegInf | Num int

text \<open>
  \<open>to_double n\<close> is the Number value of the natural number \<open>n\<close>: \<open>n\<close> itself up to
  \<open>2 ^ 53\<close>, above that \<open>n\<close> rounded to 53 significant bits, ties to even, and
  \<open>Infinity\<close> once the rounded value reaches \<open>2 ^ 1024\<close>.
\<close>

fun bitlen :: "nat \<Rightarrow> nat" where
  "bitlen n = (if n = 0 then 0 else Suc (bitlen (n div 2)))"

declare bitlen.simps [simp del]

definition to_double :: "nat \<Rightarrow> number" where
  "to_double n =
     (if n < 2 ^ 53 then Num (int n)
      else
        let e = bitlen n - 53;
            q = n div 2 ^ e;
            r = n mod 2 ^ e;
            h = 2 ^ (e - 1);
            q' = (if h < r \<or> (r = h \<and> odd q) then q + 1 else q);
            v = q' * 2 ^ e
        in if 2 ^ 1024 \<le> v then PosInf else Num (int v))"

definition negate :: "number \<Rightarrow> number" where
  "negate x = (case x of NaN \<Rightarrow> NaN | PosInf \<Rightarrow> NegInf | NegInf \<Rightarrow> PosInf | Num i \<Rightarrow> Num (- i))"

definition isNaN :: "number \<Rightarrow> bool" where
  "isNaN x = (x = NaN)"

text \<open>\<open>a !== b\<close> on two Numbers: \<open>NaN\<close> differs from everything, itself included.\<close>

definition strict_neq :: "number \<Rightarrow> number \<Rightarrow> bool" where
  "strict_neq a b = (a = NaN \<or> b = NaN \<or> a \<noteq> b)"

text \<open>
  \<open>ToInt32\<close>, the conversion every store into an \<open>Int32Array\<close> applies: non-finite
  values become 0, finite ones are reduced modulo \<open>2 ^ 32\<close>.
\<close>

definition ToInt32 :: "number \<Rightarrow> 32 word" where
  "ToInt32 x = (case x of Num i \<Rightarrow> word_of_int i | _ \<Rightarrow> 0)"

subsection \<open>Character classes\<close>

text \<open>
  \<open>\s\<close> of a regular expression: the WhiteSpace and LineTerminator code points.
  \<open>StrWhiteSpaceChar\<close>, which \<open>parseInt\<close> skips, is the same set.
\<close>

definition is_space :: "code_unit \<Rightarrow> bool" where
  "is_space u =
     (u \<in> {0x9, 0xA, 0xB, 0xC, 0xD, 0x20, 0xA0, 0x1680, 0x2028, 0x2029, 0x202F, 0x205F,
            0x3000, 0xFEFF}
      \<or> (0x2000 \<le> u \<and> u \<le> 0x200A))"

definition is_digit :: "code_unit \<Rightarrow> bool" where
  "is_digit u = (0x30 \<le> u \<and> u \<le> 0x39)"

text \<open>
  The value of a code unit as a digit of \<open>parseInt\<close>: \<open>0\<close>-\<open>9\<close>, then the letters of
  either case for 10 to 35.
\<close>

definition digit_val :: "code_unit \<Rightarrow> nat option" where
  "digit_val u =
     (if 0x30 \<le> u \<and> u \<le> 0x39 then Some (u - 0x30)
      else if 0x61 \<le> u \<and> u \<le> 0x7A then Some (u - 0x61 + 10)
      else if 0x41 \<le> u \<and> u \<le> 0x5A then Some (u - 0x41 + 10)
      else None)"

definition is_radix_digit :: "nat \<Rightarrow> code_unit \<Rightarrow> bool" where
  "is_radix_digit R u = (case digit_val u of None \<Rightarrow> False | Some d \<Rightarrow> d < R)"

subsection \<open>parseInt and toString\<close>

text \<open>
  \<open>parseInt(string, radix)\<close>; the radix is \<open>None\<close> where the source passes none. The
  steps are the standard's: skip leading white space, read a sign, fix the radix
  (a \<open>0x\<close> prefix selects 16 when no radix, or 16, was given), take the longest prefix
  of digits of that radix, \<open>NaN\<close> if it is empty, else its value as a Number. For
  radix 10 the standard lets an implementation read the digits after the 20th as zeros;
  the model rounds the exact value.
\<close>

definition parseInt :: "ustring \<Rightarrow> nat option \<Rightarrow> number" where
  "parseInt inputString radix =
     (let S = dropWhile is_space inputString;
          neg = (S \<noteq> [] \<and> hd S = 0x2D);
          S = (if S \<noteq> [] \<and> (hd S = 0x2B \<or> hd S = 0x2D) then tl S else S);
          R = (case radix of None \<Rightarrow> 0 | Some r \<Rightarrow> r);
          stripPrefix = (R = 0 \<or> R = 16)
      in if R \<noteq> 0 \<and> (R < 2 \<or> 36 < R) then NaN
         else
           let R = (if R = 0 then 10 else R);
               hex = (stripPrefix \<and> 2 \<le> length S \<and> hd S = 0x30 \<and> (S ! 1 = 0x78 \<or> S ! 1 = 0x58));
               S = (if hex then drop 2 S else S);
               R = (if hex then 16 else R);
               Z = takeWhile (is_radix_digit R) S
           in if Z = [] then NaN
              else
                let mathInt = foldl (\<lambda>acc u. acc * R + the (digit_val u)) 0 Z
                in if neg then negate (to_double mathInt) else to_double mathInt)"

text \<open>Decimal digits of a natural number, most significant first.\<close>

fun nat_digits :: "nat \<Rightarrow> ustring" where
  "nat_digits n =
     (if n < 10 then [0x30 + n]
      else nat_digits (n div 10) @ [0x30 + n mod 10])"

declare nat_digits.simps [simp del]

text \<open>
  \<open>toString()\<close> of a BigInt, and of a Number that holds an integer of magnitude below
  \<open>10 ^ 21\<close> (every 32-bit value is one): the decimal digits, after a minus sign when
  negative.
\<close>

definition int_toString :: "int \<Rightarrow> ustring" where
  "int_toString i = (if i < 0 then 0x2D # nat_digits (nat (- i)) else nat_digits (nat i))"

subsection \<open>Values and objects\<close>

datatype jsval = Undefined | Str ustring | Number number | BigInt nat

text \<open>
  An object is the list of its properties in creation order. Assigning to a key that
  exists keeps its place; a new key goes last.
\<close>

type_synonym jsobject = "(ustring \<times> jsval) list"

definition js_get :: "jsobject \<Rightarrow> ustring \<Rightarrow> jsval" where
  "js_get obj k = (case map_of obj k of None \<Rightarrow> Undefined | Some v \<Rightarrow> v)"

definition js_set :: "jsobject \<Rightarrow> ustring \<Rightarrow> jsval \<Rightarrow> jsobject" where
  "js_set obj k v =
     (if k \<in> fst ` set obj then map (\<lambda>(k', v'). if k' = k then (k', v) else (k', v')) obj
      else obj @ [(k, v)])"

text \<open>The key a value denotes when it is used as a property name (\<open>obj[value]\<close>).\<close>

definition ToPropertyKey :: "jsval \<Rightarrow> ustring" where
  "ToPropertyKey v =
     (case v of
        Undefined \<Rightarrow> ascii ''undefined''
      | Str s \<Rightarrow> s
      | BigInt n \<Rightarrow> nat_digits n
      | Number NaN \<Rightarrow> ascii ''NaN''
      | Number PosInf \<Rightarrow> ascii ''Infinity''
      | Number NegInf \<Rightarrow> ascii ''-Infinity''
      | Number (Num i) \<Rightarrow> int_toString i)"

text \<open>\<open>obj[v]\<close> for a value \<open>v\<close>.\<close>

definition js_index :: "jsobject \<Rightarrow> jsval \<Rightarrow> jsval" where
  "js_index obj v = js_get obj (ToPropertyKey v)"

text \<open>
  A key is an array index when it is the canonical decimal form of an integer below
  \<open>2 ^ 32 - 1\<close>. \<open>Object.entries\<close> lists the array-index keys first, in ascending
  numeric order, then the other keys in creation order.
\<close>

definition array_index :: "ustring \<Rightarrow> nat option" where
  "array_index k =
     (if k \<noteq> [] \<and> list_all is_digit k then
        let n = foldl (\<lambda>acc u. acc * 10 + (u - 0x30)) 0 k
        in if nat_digits n = k \<and> n < 2 ^ 32 - 1 then Some n else None
      else None)"

definition Object_entries :: "jsobject \<Rightarrow> (ustring \<times> jsval) list" where
  "Object_entries obj =
     sort_key (\<lambda>(k, v). the (array_index k)) (filter (\<lambda>(k, v). array_index k \<noteq> None) obj)
     @ filter (\<lambda>(k, v). array_index k = None) obj"

section \<open>The enum registries (topic.ts, status.ts)\<close>

definition Topic_literal :: jsobject where
  "Topic_literal =
     [(ascii ''Unspecified'', Number (Num 0)),
      (ascii ''NeuronManagement'', Number (Num 1)),
      (ascii ''ExchangeRate'', Number (Num 2)),
      (ascii ''NetworkEconomics'', Number (Num 3)),
      (ascii ''Governance'', Number (Num 4)),
      (ascii ''NodeAdmin'', Number (Num 5)),
      (ascii ''ParticipantManagement'', Number (Num 6)),
      (ascii ''SubnetManagement'', Number (Num 7)),
      (ascii ''NetworkCanisterManagement'', Number (Num 8)),
      (ascii ''Kyc'', Number (Num 9)),
      (ascii ''NodeProviderRewards'', Number (Num 10)),
      (ascii ''IcOsVersionDeployment'', Number (Num 12)),
      (ascii ''IcOsVersionElection'', Number (Num 13)),
      (ascii ''SnsAndCommunityFund'', Number (Num 14)),
      (ascii ''ApiBoundaryNodeManagement'', Number (Num 15)),
      (ascii ''SubnetRental'', Number (Num 16)),
      (ascii ''ProtocolCanisterManagement'', Number (Num 17)),
      (ascii ''ServiceNervousSystemManagement'', Number (Num 18))]"

definition ProposalStatus_literal :: jsobject where
  "ProposalStatus_literal =
     [(ascii ''Unspecified'', Number (Num 0)),
      (ascii ''Open'', Number (Num 1)),
      (ascii ''Rejected'', Number (Num 2)),
      (ascii ''Adopted'', Number (Num 3)),
      (ascii ''Executed'', Number (Num 4)),
      (ascii ''Failed'', Number (Num 5))]"

text \<open>
  \<^verbatim>\<open>Object.entries(X).forEach(([name, value]) => { X[value] = name; })\<close>: the entries
  are listed once, before the first assignment.
\<close>

definition add_reverse_mapping :: "jsobject \<Rightarrow> jsobject" where
  "add_reverse_mapping obj =
     foldl (\<lambda>ob (name, value). js_set ob (ToPropertyKey value) (Str name)) obj (Object_entries obj)"

definition Topic :: jsobject where
  "Topic = add_reverse_mapping Topic_literal"

definition ProposalStatus :: jsobject where
  "ProposalStatus = add_reverse_mapping ProposalStatus_literal"

text \<open>The codes a registry holds: the Numbers among its values.\<close>

fun registered_codes :: "jsobject \<Rightarrow> number list" where
  "registered_codes [] = []"
| "registered_codes ((k, Number c) # ps) = c # registered_codes ps"
| "registered_codes (p # ps) = registered_codes ps"

section \<open>The command pattern\<close>

text \<open>
  The provider matches the message text against
  \<^verbatim>\<open>/^!proposals(?:\s+(\d+))?(?:\s+topic\s+(\d+))?(?:\s+status\s+(\d+))?$/i\<close>.
  The constructs this pattern uses: literal characters (compared under the \<open>i\<close> flag), a
  greedy \<open>+\<close> on a character class, capture groups, greedy optional groups, sequence
  and the end assertion \<open>$\<close> (no \<open>m\<close> flag: end of input only).
\<close>

datatype cclass = Space | Digit

datatype regex =
    Lit ustring
  | Plus cclass
  | Group nat regex
  | Opt regex
  | Seq regex regex
  | Eos

fun in_class :: "cclass \<Rightarrow> code_unit \<Rightarrow> bool" where
  "in_class Space u = is_space u"
| "in_class Digit u = is_digit u"

text \<open>
  Case folding of the \<open>i\<close> flag. The pattern's own characters are ASCII, and the
  standard never folds a code unit from 128 up onto one below 128, so only the ASCII
  letters need folding for the comparison with a pattern character.
\<close>

definition canonicalize :: "code_unit \<Rightarrow> code_unit" where
  "canonicalize u = (if 0x61 \<le> u \<and> u \<le> 0x7A then u - 0x20 else u)"

type_synonym captures = "nat \<rightharpoonup> ustring"

text \<open>
  The backtracking matcher: from a rest of the input and the captures so far, every way
  the expression can match a prefix of that rest, in the order backtracking tries them.
  Each is given by the input left over and the captures after it.
\<close>

fun rmatch :: "regex \<Rightarrow> ustring \<times> captures \<Rightarrow> (ustring \<times> captures) list" where
  "rmatch (Lit l) (s, c) =
     (if length l \<le> length s \<and> map canonicalize (take (length l) s) = map canonicalize l
      then [(drop (length l) s, c)] else [])"
| "rmatch (Plus k) (s, c) =
     map (\<lambda>n. (drop n s, c)) (rev [1 ..< Suc (length (takeWhile (in_class k) s))])"
| "rmatch (Group i r) (s, c) =
     map (\<lambda>(s', c'). (s', c'(i \<mapsto> take (length s - length s') s))) (rmatch r (s, c))"
| "rmatch (Opt r) st = rmatch r st @ [st]"
| "rmatch (Seq r1 r2) st = concat (map (rmatch r2) (rmatch r1 st))"
| "rmatch Eos (s, c) = (if s = [] then [(s, c)] else [])"

text \<open>
  \<open>text.match(re)\<close> for a pattern that begins with \<open>^\<close> and has no \<open>g\<close> flag: the
  only attempt is at the start of the text, and the result is the first way found, or
  \<open>null\<close>.
\<close>

definition regex_match :: "regex \<Rightarrow> ustring \<Rightarrow> captures option" where
  "regex_match re s = (case rmatch re (s, Map.empty) of [] \<Rightarrow> None | (s', c) # _ \<Rightarrow> Some c)"

text \<open>
  The pattern's three optional groups: \<^verbatim>\<open>\s+(\d+)\<close> with capture 1, and
  \<^verbatim>\<open>\s+topic\s+(\d+)\<close> and \<^verbatim>\<open>\s+status\s+(\d+)\<close> with captures 2 and 3.
\<close>

definition limit_group :: regex where
  "limit_group = Seq (Plus Space) (Group 1 (Plus Digit))"

definition filter_group :: "nat \<Rightarrow> string \<Rightarrow> regex" where
  "filter_group i name =
     Seq (Plus Space) (Seq (Lit (ascii name)) (Seq (Plus Space) (Group i (Plus Digit))))"

definition proposals_re :: regex where
  "proposals_re =
     Seq (Lit (ascii ''!proposals''))
    (Seq (Opt limit_group)
    (Seq (Opt (filter_group 2 ''topic''))
    (Seq (Opt (filter_group 3 ''status''))
     Eos)))"

text \<open>
  \<open>match && match[i]\<close> as a condition: the group's text when there is a match, the
  group took part in it and its text is not empty; nothing otherwise.
\<close>

definition group :: "captures option \<Rightarrow> nat \<Rightarrow> ustring option" where
  "group m i =
     (case m of
        None \<Rightarrow> None
      | Some c \<Rightarrow> (case c i of None \<Rightarrow> None | Some g \<Rightarrow> if g = [] then None else Some g))"

text \<open>
  The first four statements of \<open>governanceProvider.get\<close>: the limit and the two
  filters, \<open>None\<close> standing for \<open>undefined\<close>.
\<close>

definition parse_command :: "ustring \<Rightarrow> number \<times> number option \<times> number option" where
  "parse_command msg =
     (let m = regex_match proposals_re msg;
          lim = (case group m 1 of Some g \<Rightarrow> parseInt g (Some 10) | None \<Rightarrow> Num 10);
          topicFilter = (case group m 2 of Some g \<Rightarrow> Some (parseInt g (Some 10)) | None \<Rightarrow> None);
          statusFilter = (case group m 3 of Some g \<Rightarrow> Some (parseInt g (Some 10)) | None \<Rightarrow> None)
      in (lim, topicFilter, statusFilter))"

section \<open>The governance canister\<close>

text \<open>
  The request and response types come from the canister's interface declaration. Of a
  listed or fetched proposal the provider reads the optional id, the optional proposal
  with its optional title and its summary, the two 32-bit codes and the timestamp.
  Optional values arrive as arrays of length 0 or 1.
\<close>

record ListProposalInfo =
  include_reward_status :: "32 word list"
  exclude_topic :: "number list"
  include_status :: "32 word list"
  omit_large_fields :: "bool option"
  before_proposal :: "64 word option"
  include_all_manage_neuron_proposals :: "bool option"
  limit :: number

record Proposal =
  title :: "ustring option"
  summary :: "ustring option"

record ProposalInfo =
  id_opt :: "64 word option"
  proposal :: "Proposal option"
  topic :: "32 word"
  status :: "32 word"
  proposal_timestamp_seconds :: "64 word"

text \<open>
  What can end a query early: a \<open>TypeError\<close> of the provider's own code (a property read
  on \<open>undefined\<close>), or a call to the canister that is rejected or cannot be made.
\<close>

datatype error = TypeError | CallFailed

text \<open>The canister as the provider sees it: its two query methods.\<close>

record governance =
  list_proposals :: "ListProposalInfo \<Rightarrow> error + ProposalInfo list"
  get_proposal_info :: "64 word \<Rightarrow> error + ProposalInfo option"

section \<open>fetchProposals\<close>

text \<open>The loop over \<open>Object.entries(Topic)\<close> that fills \<open>exclude_topic\<close>.\<close>

fun exclude_loop :: "number \<Rightarrow> (ustring \<times> jsval) list \<Rightarrow> number list \<Rightarrow> number list" where
  "exclude_loop topicFilter [] excl = excl"
| "exclude_loop topicFilter ((name, v) # es) excl =
     (let tpc = parseInt name None
      in if \<not> isNaN tpc then
           if strict_neq tpc topicFilter
           then exclude_loop topicFilter es (excl @ [tpc])
           else exclude_loop topicFilter es excl
         else exclude_loop topicFilter es excl)"

text \<open>The request object \<open>fetchProposals\<close> builds; the limit defaults to 10.\<close>

definition build_request ::
  "number option \<Rightarrow> number option \<Rightarrow> number option \<Rightarrow> ListProposalInfo" where
  "build_request limit_arg statusFilter topicFilter =
     (let lim = (case limit_arg of None \<Rightarrow> Num 10 | Some l \<Rightarrow> l);
          excl = (case topicFilter of
                    None \<Rightarrow> []
                  | Some t \<Rightarrow> exclude_loop t (Object_entries Topic) [])
      in \<lparr> include_reward_status = [],
           exclude_topic = excl,
           include_status = (case statusFilter of None \<Rightarrow> [] | Some s \<Rightarrow> [ToInt32 s]),
           omit_large_fields = None,
           before_proposal = None,
           include_all_manage_neuron_proposals = None,
           limit = lim \<rparr>)"

definition fetchProposals ::
  "governance \<Rightarrow> number option \<Rightarrow> number option \<Rightarrow> number option
     \<Rightarrow> error + ProposalInfo list" where
  "fetchProposals gov limit_arg statusFilter topicFilter =
     list_proposals gov (build_request limit_arg statusFilter topicFilter)"

definition fetchProposalInfo :: "governance \<Rightarrow> 64 word \<Rightarrow> error + ProposalInfo option" where
  "fetchProposalInfo gov proposalId = get_proposal_info gov proposalId"

section \<open>governanceProvider.get\<close>

text \<open>
  A record of the result. \<open>title\<close> is whatever \<open>title[0]\<close> gave, so the fields are
  JavaScript values. The field names are those of the source after \<open>out_\<close>.
\<close>

record summary_record =
  out_id :: jsval
  out_title :: jsval
  out_summary :: jsval
  out_topic :: jsval
  out_status :: jsval
  out_timestamp :: jsval

text \<open>\<open>s || d\<close> for a string that may be missing: \<open>d\<close> when it is missing or empty.\<close>

definition or_default :: "ustring option \<Rightarrow> ustring \<Rightarrow> ustring" where
  "or_default s d = (case s of None \<Rightarrow> d | Some x \<Rightarrow> if x = [] then d else x)"

text \<open>
  One pass of the loop body over a listed proposal \<open>p\<close>: an error, \<open>continue\<close>
  (\<open>Inr None\<close>) or the record to push.
\<close>

definition loop_body ::
  "governance \<Rightarrow> number option \<Rightarrow> number option \<Rightarrow> ProposalInfo
     \<Rightarrow> error + summary_record option" where
  "loop_body gov topicFilter statusFilter p =
     (case id_opt p of
        None \<Rightarrow> Inl TypeError
      | Some pid \<Rightarrow>
          (case proposal p of
             None \<Rightarrow> Inl TypeError
           | Some prop \<Rightarrow>
               (case fetchProposalInfo gov pid of
                  Inl e \<Rightarrow> Inl e
                | Inr pInfoResult \<Rightarrow>
                    (case pInfoResult of
                       None \<Rightarrow> Inl TypeError
                     | Some pInfo \<Rightarrow>
                         let tpc = int_toString (sint (topic pInfo));
                             sts = int_toString (sint (status pInfo))
                         in if topicFilter \<noteq> None
                               \<and> strict_neq (parseInt tpc None) (the topicFilter) then Inr None
                            else if statusFilter \<noteq> None
                               \<and> strict_neq (parseInt sts None) (the statusFilter) then Inr None
                            else Inr (Some
                              \<lparr> out_id = Str (nat_digits (unat pid)),
                                out_title = (case title prop of None \<Rightarrow> Undefined | Some t \<Rightarrow> Str t),
                                out_summary = Str (or_default (summary prop) []),
                                out_topic = Str tpc,
                                out_status = Str sts,
                                out_timestamp = BigInt (unat (proposal_timestamp_seconds pInfo)) \<rparr>)))))"

text \<open>
  The earlier revision of the provider, which emitted text lines, took the summary with
  another default: \<^verbatim>\<open>p.proposal[0].summary || 'No summary provided'\<close>.
\<close>

definition summary_or_placeholder :: "Proposal \<Rightarrow> ustring" where
  "summary_or_placeholder pr = or_default (summary pr) (ascii ''No summary provided'')"

fun proposals_loop ::
  "governance \<Rightarrow> number option \<Rightarrow> number option \<Rightarrow> ProposalInfo list
     \<Rightarrow> summary_record list \<Rightarrow> error + summary_record list" where
  "proposals_loop gov topicFilter statusFilter [] proposals = Inr proposals"
| "proposals_loop gov topicFilter statusFilter (p # ps) proposals =
     (case loop_body gov topicFilter statusFilter p of
        Inl e \<Rightarrow> Inl e
      | Inr None \<Rightarrow> proposals_loop gov topicFilter statusFilter ps proposals
      | Inr (Some r) \<Rightarrow> proposals_loop gov topicFilter statusFilter ps (proposals @ [r]))"

text \<open>
  \<open>get\<close> returns \<open>{ text: '', values: {}, data: { proposals } }\<close>; the model returns the
  \<open>proposals\<close> array, or the error the promise is rejected with.
\<close>

definition get :: "governance \<Rightarrow> ustring \<Rightarrow> error + summary_record list" where
  "get gov msg =
     (case parse_command msg of
        (lim, topicFilter, statusFilter) \<Rightarrow>
          (case fetchProposals gov (Some lim) statusFilter topicFilter of
             Inl e \<Rightarrow> Inl e
           | Inr response \<Rightarrow> proposals_loop gov topicFilter statusFilter response []))"

section \<open>Notions of the specification\<close>

subsection \<open>The command grammar\<close>

text \<open>
  \<^verbatim>\<open>!proposals [<limit:uint>] [topic <id:uint>] [status <id:uint>]\<close>: keywords in any
  letter case, fields separated by white space, optional, in this order. A command
  is given by its keyword, an optional limit part (white space, digits) and optional
  topic and status parts (white space, keyword, white space, digits).
\<close>

definition whitespace :: "ustring \<Rightarrow> bool" where
  "whitespace w = (w \<noteq> [] \<and> list_all is_space w)"

definition uint_literal :: "ustring \<Rightarrow> bool" where
  "uint_literal d = (d \<noteq> [] \<and> list_all is_digit d)"

definition keyword :: "string \<Rightarrow> ustring \<Rightarrow> bool" where
  "keyword w k = (map canonicalize k = map canonicalize (ascii w))"

text \<open>The number a digit string denotes in base 10.\<close>

definition decimal_value :: "ustring \<Rightarrow> nat" where
  "decimal_value d = foldl (\<lambda>acc u. acc * 10 + (u - 0x30)) 0 d"

type_synonym limit_part = "ustring \<times> ustring"

type_synonym filter_part = "ustring \<times> ustring \<times> ustring \<times> ustring"

fun filter_text :: "filter_part option \<Rightarrow> ustring" where
  "filter_text None = []"
| "filter_text (Some (w1, k, w2, d)) = w1 @ k @ w2 @ d"

fun limit_text :: "limit_part option \<Rightarrow> ustring" where
  "limit_text None = []"
| "limit_text (Some (w, d)) = w @ d"

definition command_text ::
  "ustring \<Rightarrow> limit_part option \<Rightarrow> filter_part option \<Rightarrow> filter_part option \<Rightarrow> ustring" where
  "command_text kw lim tp st = kw @ limit_text lim @ filter_text tp @ filter_text st"

fun filter_ok :: "string \<Rightarrow> filter_part option \<Rightarrow> bool" where
  "filter_ok name None = True"
| "filter_ok name (Some (w1, k, w2, d)) =
     (whitespace w1 \<and> keyword name k \<and> whitespace w2 \<and> uint_literal d)"

fun limit_ok :: "limit_part option \<Rightarrow> bool" where
  "limit_ok None = True"
| "limit_ok (Some (w, d)) = (whitespace w \<and> uint_literal d)"

definition grammatical ::
  "ustring \<Rightarrow> limit_part option \<Rightarrow> filter_part option \<Rightarrow> filter_part option \<Rightarrow> bool" where
  "grammatical kw lim tp st =
     (keyword ''!proposals'' kw \<and> limit_ok lim \<and> filter_ok ''topic'' tp \<and> filter_ok ''status'' st)"

text \<open>The digits a part supplies.\<close>

fun limit_digits :: "limit_part option \<Rightarrow> ustring option" where
  "limit_digits None = None"
| "limit_digits (Some (w, d)) = Some d"

fun filter_digits :: "filter_part option \<Rightarrow> ustring option" where
  "filter_digits None = None"
| "filter_digits (Some (w1, k, w2, d)) = Some d"

subsection \<open>Surviving items and their projection\<close>

text \<open>
  The detail resolved for a listed proposal, when it has an id and the detail fetch
  returns a record.
\<close>

definition resolved :: "governance \<Rightarrow> ProposalInfo \<Rightarrow> ProposalInfo option" where
  "resolved gov p =
     (case id_opt p of
        None \<Rightarrow> None
      | Some i \<Rightarrow> (case get_proposal_info gov i of Inr (Some d) \<Rightarrow> Some d | _ \<Rightarrow> None))"

text \<open>A listed proposal can be processed: it has an id, a proposal and a resolved detail.\<close>

definition processable :: "governance \<Rightarrow> ProposalInfo \<Rightarrow> bool" where
  "processable gov p = (proposal p \<noteq> None \<and> resolved gov p \<noteq> None)"

text \<open>A resolved detail satisfies both filters (each only when it is present).\<close>

definition matches_filters :: "number option \<Rightarrow> number option \<Rightarrow> ProposalInfo \<Rightarrow> bool" where
  "matches_filters topicFilter statusFilter d =
     ((case topicFilter of None \<Rightarrow> True | Some t \<Rightarrow> Num (sint (topic d)) = t)
      \<and> (case statusFilter of None \<Rightarrow> True | Some s \<Rightarrow> Num (sint (status d)) = s))"

definition survives ::
  "governance \<Rightarrow> number option \<Rightarrow> number option \<Rightarrow> ProposalInfo \<Rightarrow> bool" where
  "survives gov topicFilter statusFilter p =
     (case resolved gov p of None \<Rightarrow> False | Some d \<Rightarrow> matches_filters topicFilter statusFilter d)"

text \<open>The summary of a listed proposal, from the handle and its resolved detail.\<close>

definition projection :: "governance \<Rightarrow> ProposalInfo \<Rightarrow> summary_record" where
  "projection gov p =
     (let d = the (resolved gov p); prop = the (proposal p)
      in \<lparr> out_id = Str (nat_digits (unat (the (id_opt p)))),
           out_title = (case title prop of None \<Rightarrow> Undefined | Some t \<Rightarrow> Str t),
           out_summary = Str (case summary prop of None \<Rightarrow> [] | Some s \<Rightarrow> s),
           out_topic = Str (int_toString (sint (topic d))),
           out_status = Str (int_toString (sint (status d))),
           out_timestamp = BigInt (unat (proposal_timestamp_seconds d)) \<rparr>)"


text \<open>
  The code a consumer reads back from a record's \<open>topic\<close> or \<open>status\<close> field, as the
  plugin's own tests do with \<open>parseInt(p.topic, 10)\<close>.
\<close>

fun field_code :: "jsval \<Rightarrow> number" where
  "field_code (Str s) = parseInt s (Some 10)"
| "field_code v = NaN"

subsection \<open>Sample ledgers\<close>

definition sample_info ::
  "64 word \<Rightarrow> ustring option \<Rightarrow> ustring option \<Rightarrow> 32 word \<Rightarrow> 32 word \<Rightarrow> ProposalInfo" where
  "sample_info i t s tp st =
     \<lparr> id_opt = Some i,
       proposal = Some \<lparr> title = t, summary = s \<rparr>,
       topic = tp,
       status = st,
       proposal_timestamp_seconds = 1700000000 \<rparr>"

definition sample_listing :: "ProposalInfo list" where
  "sample_listing =
     [sample_info 101 (Some (ascii ''Elect'')) (Some (ascii ''New version'')) 13 4,
      sample_info 102 None None 17 4,
      sample_info 103 (Some (ascii ''Rent'')) (Some []) 13 1]"

text \<open>A ledger that resolves every listed proposal.\<close>

definition sample_ledger :: governance where
  "sample_ledger =
     \<lparr> list_proposals = (\<lambda>req. Inr sample_listing),
       get_proposal_info = (\<lambda>i. Inr (find (\<lambda>p. id_opt p = Some i) sample_listing)) \<rparr>"

text \<open>The same ledger, except that the detail fetch for proposal 102 returns nothing.\<close>

definition sample_ledger_gap :: governance where
  "sample_ledger_gap =
     \<lparr> list_proposals = (\<lambda>req. Inr sample_listing),
       get_proposal_info =
         (\<lambda>i. if i = 102 then Inr None else Inr (find (\<lambda>p. id_opt p = Some i) sample_listing)) \<rparr>"

section \<open>Properties\<close>

subsection \<open>The registries\<close>

lemma reverse_lookup:
  assumes dn: "distinct (map fst obj)"
    and dk: "distinct (map (\<lambda>e. ToPropertyKey (snd e)) obj)"
    and disj: "(\<lambda>e. ToPropertyKey (snd e)) ` set obj \<inter> fst ` set obj = {}"
    and mem: "(n, v) \<in> set obj"
  defines "r \<equiv> obj @ map (\<lambda>(name, value). (ToPropertyKey value, Str name)) obj"
  shows "js_index r v = Str n" and "js_index r (Str n) = v"
proof -
  let ?rev = "map (\<lambda>(name, value). (ToPropertyKey value, Str name)) obj"
  have fst_rev: "map fst ?rev = map (\<lambda>e. ToPropertyKey (snd e)) obj"
    by (simp add: case_prod_beta)
  have "ToPropertyKey v \<in> (\<lambda>e. ToPropertyKey (snd e)) ` set obj"
    using mem by force
  then have "ToPropertyKey v \<notin> fst ` set obj"
    using disj by blast
  then have none: "map_of obj (ToPropertyKey v) = None"
    by (simp add: map_of_eq_None_iff)
  have drev: "distinct (map fst ?rev)"
    using dk by (simp only: fst_rev)
  have "(ToPropertyKey v, Str n) \<in> set ?rev"
    using mem by force
  with drev have some: "map_of ?rev (ToPropertyKey v) = Some (Str n)"
    by (rule map_of_is_SomeI)
  show "js_index r v = Str n"
    by (simp add: r_def js_index_def js_get_def map_add_def none some)
  have "map_of obj n = Some v"
    using dn mem by (rule map_of_is_SomeI)
  then show "js_index r (Str n) = v"
    by (simp add: r_def js_index_def js_get_def map_add_def ToPropertyKey_def)
qed

lemma registered_codes_mem:
  "c \<in> set (registered_codes obj) \<Longrightarrow> \<exists>n. (n, Number c) \<in> set obj"
  by (induction obj rule: registered_codes.induct) auto

lemma registered_codes_append:
  "registered_codes (xs @ ys) = registered_codes xs @ registered_codes ys"
  by (induction xs rule: registered_codes.induct) auto

lemma registered_codes_reverse:
  "registered_codes (map (\<lambda>(name, value). (ToPropertyKey value, Str name)) obj) = []"
  by (induction obj) auto

lemma js_set_new: "k \<notin> fst ` set obj \<Longrightarrow> js_set obj k v = obj @ [(k, v)]"
  by (simp add: js_set_def)

lemma reverse_fold_fresh:
  "distinct (map (\<lambda>e. ToPropertyKey (snd e)) es) \<Longrightarrow>
   (\<lambda>e. ToPropertyKey (snd e)) ` set es \<inter> fst ` set obj = {} \<Longrightarrow>
   foldl (\<lambda>ob (name, value). js_set ob (ToPropertyKey value) (Str name)) obj es
     = obj @ map (\<lambda>(name, value). (ToPropertyKey value, Str name)) es"
proof (induction es arbitrary: obj)
  case Nil
  then show ?case by simp
next
  case (Cons e es)
  obtain n v where e: "e = (n, v)" by (cases e)
  have fresh: "ToPropertyKey v \<notin> fst ` set obj"
    using Cons.prems(2) by (auto simp: e)
  have step: "js_set obj (ToPropertyKey v) (Str n) = obj @ [(ToPropertyKey v, Str n)]"
    using fresh by (rule js_set_new)
  have d: "distinct (map (\<lambda>e. ToPropertyKey (snd e)) es)"
    using Cons.prems(1) by simp
  have disj: "(\<lambda>e. ToPropertyKey (snd e)) ` set es \<inter> fst ` set (obj @ [(ToPropertyKey v, Str n)]) = {}"
    using Cons.prems by (auto simp: e)
  show ?case
    using Cons.IH [OF d disj] by (simp add: e step)
qed

lemma add_reverse_mapping_fresh:
  assumes "Object_entries obj = obj"
    and "distinct (map (\<lambda>e. ToPropertyKey (snd e)) obj)"
    and "(\<lambda>e. ToPropertyKey (snd e)) ` set obj \<inter> fst ` set obj = {}"
  shows "add_reverse_mapping obj = obj @ map (\<lambda>(name, value). (ToPropertyKey value, Str name)) obj"
  unfolding add_reverse_mapping_def assms(1) using assms(2,3) by (rule reverse_fold_fresh)

lemma round_trip_general:
  assumes en: "Object_entries obj = obj"
    and dn: "distinct (map fst obj)"
    and dk: "distinct (map (\<lambda>e. ToPropertyKey (snd e)) obj)"
    and disj: "(\<lambda>e. ToPropertyKey (snd e)) ` set obj \<inter> fst ` set obj = {}"
    and c: "c \<in> set (registered_codes (add_reverse_mapping obj))"
  shows "\<exists>name. js_index (add_reverse_mapping obj) (Number c) = Str name
           \<and> js_index (add_reverse_mapping obj) (Str name) = Number c"
proof -
  let ?r = "obj @ map (\<lambda>(name, value). (ToPropertyKey value, Str name)) obj"
  have r: "add_reverse_mapping obj = ?r"
    using en dk disj by (rule add_reverse_mapping_fresh)
  have "c \<in> set (registered_codes obj)"
    using c by (simp add: r registered_codes_append registered_codes_reverse)
  then obtain n where mem: "(n, Number c) \<in> set obj"
    using registered_codes_mem by blast
  have "js_index ?r (Number c) = Str n" and "js_index ?r (Str n) = Number c"
    using reverse_lookup [OF dn dk disj mem] by simp_all
  then show ?thesis
    unfolding r by blast
qed

lemma Topic_literal_entries: "Object_entries Topic_literal = Topic_literal"
  by (simp add: Object_entries_def Topic_literal_def array_index_def ascii_def is_digit_def)

lemma Topic_literal_names: "distinct (map fst Topic_literal)"
  by (simp add: Topic_literal_def ascii_def)

lemma Topic_literal_keys:
  "map (\<lambda>e. ToPropertyKey (snd e)) Topic_literal =
     map nat_digits [0, 1, 2, 3, 4, 5, 6, 7, 8, 9, 10, 12, 13, 14, 15, 16, 17, 18]"
  by (simp add: Topic_literal_def ToPropertyKey_def int_toString_def)

lemma Topic_literal_keys_distinct: "distinct (map (\<lambda>e. ToPropertyKey (snd e)) Topic_literal)"
  unfolding Topic_literal_keys by (simp add: nat_digits.simps)

lemma Topic_literal_keys_fresh:
  "(\<lambda>e. ToPropertyKey (snd e)) ` set Topic_literal \<inter> fst ` set Topic_literal = {}"
  unfolding set_map [symmetric] Topic_literal_keys
  by (simp add: Topic_literal_def ascii_def nat_digits.simps)

lemma Topic_value:
  "Topic = Topic_literal @ map (\<lambda>(name, value). (ToPropertyKey value, Str name)) Topic_literal"
  unfolding Topic_def
  using Topic_literal_entries Topic_literal_keys_distinct Topic_literal_keys_fresh
  by (rule add_reverse_mapping_fresh)

lemma Topic_codes:
  "registered_codes Topic = map Num [0, 1, 2, 3, 4, 5, 6, 7, 8, 9, 10, 12, 13, 14, 15, 16, 17, 18]"
  unfolding Topic_value registered_codes_append registered_codes_reverse
  by (simp add: Topic_literal_def)

lemma Topic_entries: "Object_entries Topic =
   [(ascii ''0'', Str (ascii ''Unspecified'')),
    (ascii ''1'', Str (ascii ''NeuronManagement'')),
    (ascii ''2'', Str (ascii ''ExchangeRate'')),
    (ascii ''3'', Str (ascii ''NetworkEconomics'')),
    (ascii ''4'', Str (ascii ''Governance'')),
    (ascii ''5'', Str (ascii ''NodeAdmin'')),
    (ascii ''6'', Str (ascii ''ParticipantManagement'')),
    (ascii ''7'', Str (ascii ''SubnetManagement'')),
    (ascii ''8'', Str (ascii ''NetworkCanisterManagement'')),
    (ascii ''9'', Str (ascii ''Kyc'')),
    (ascii ''10'', Str (ascii ''NodeProviderRewards'')),
    (ascii ''12'', Str (ascii ''IcOsVersionDeployment'')),
    (ascii ''13'', Str (ascii ''IcOsVersionElection'')),
    (ascii ''14'', Str (ascii ''SnsAndCommunityFund'')),
    (ascii ''15'', Str (ascii ''ApiBoundaryNodeManagement'')),
    (ascii ''16'', Str (ascii ''SubnetRental'')),
    (ascii ''17'', Str (ascii ''ProtocolCanisterManagement'')),
    (ascii ''18'', Str (ascii ''ServiceNervousSystemManagement''))] @ Topic_literal"
  unfolding Topic_value
  by (simp add: Object_entries_def Topic_literal_def array_index_def ascii_def is_digit_def
      nat_digits.simps ToPropertyKey_def int_toString_def)

lemma Topic_entry_codes:
  "filter (\<lambda>x. \<not> isNaN x) (map (\<lambda>e. parseInt (fst e) None) (Object_entries Topic))
     = map Num [0, 1, 2, 3, 4, 5, 6, 7, 8, 9, 10, 12, 13, 14, 15, 16, 17, 18]"
  unfolding Topic_entries
  by (simp add: Topic_literal_def ascii_def parseInt_def is_space_def is_radix_digit_def digit_val_def
      to_double_def isNaN_def)

lemma ProposalStatus_literal_entries: "Object_entries ProposalStatus_literal = ProposalStatus_literal"
  by (simp add: Object_entries_def ProposalStatus_literal_def array_index_def ascii_def is_digit_def)

lemma ProposalStatus_literal_names: "distinct (map fst ProposalStatus_literal)"
  by (simp add: ProposalStatus_literal_def ascii_def)

lemma ProposalStatus_literal_keys:
  "map (\<lambda>e. ToPropertyKey (snd e)) ProposalStatus_literal =
     map nat_digits [0, 1, 2, 3, 4, 5]"
  by (simp add: ProposalStatus_literal_def ToPropertyKey_def int_toString_def)

lemma ProposalStatus_literal_keys_distinct:
  "distinct (map (\<lambda>e. ToPropertyKey (snd e)) ProposalStatus_literal)"
  unfolding ProposalStatus_literal_keys by (simp add: nat_digits.simps)

lemma ProposalStatus_literal_keys_fresh:
  "(\<lambda>e. ToPropertyKey (snd e)) ` set ProposalStatus_literal \<inter> fst ` set ProposalStatus_literal = {}"
  unfolding set_map [symmetric] ProposalStatus_literal_keys
  by (simp add: ProposalStatus_literal_def ascii_def nat_digits.simps)

lemma ProposalStatus_value:
  "ProposalStatus = ProposalStatus_literal
      @ map (\<lambda>(name, value). (ToPropertyKey value, Str name)) ProposalStatus_literal"
  unfolding ProposalStatus_def
  using ProposalStatus_literal_entries ProposalStatus_literal_keys_distinct
    ProposalStatus_literal_keys_fresh
  by (rule add_reverse_mapping_fresh)

lemma ProposalStatus_codes: "registered_codes ProposalStatus = map Num [0, 1, 2, 3, 4, 5]"
  unfolding ProposalStatus_value registered_codes_append registered_codes_reverse
  by (simp add: ProposalStatus_literal_def)

text \<open>
  C8. For every code registered in \<open>Topic\<close> and every code registered in
  \<open>ProposalStatus\<close>, the registry maps the code to a name and that name back to the
  code.
\<close>

theorem registry_round_trip:
  "(\<forall>c \<in> set (registered_codes Topic).
      \<exists>name. js_index Topic (Number c) = Str name \<and> js_index Topic (Str name) = Number c)
   \<and> (\<forall>c \<in> set (registered_codes ProposalStatus).
      \<exists>name. js_index ProposalStatus (Number c) = Str name
             \<and> js_index ProposalStatus (Str name) = Number c)"
proof (intro conjI ballI)
  fix c assume "c \<in> set (registered_codes Topic)"
  then show "\<exists>name. js_index Topic (Number c) = Str name \<and> js_index Topic (Str name) = Number c"
    unfolding Topic_def
    by (rule round_trip_general [OF Topic_literal_entries Topic_literal_names
          Topic_literal_keys_distinct Topic_literal_keys_fresh])
next
  fix c assume "c \<in> set (registered_codes ProposalStatus)"
  then show "\<exists>name. js_index ProposalStatus (Number c) = Str name
                  \<and> js_index ProposalStatus (Str name) = Number c"
    unfolding ProposalStatus_def
    by (rule round_trip_general [OF ProposalStatus_literal_entries ProposalStatus_literal_names
          ProposalStatus_literal_keys_distinct ProposalStatus_literal_keys_fresh])
qed

theorem registry_round_trip_witness:
  "Num 13 \<in> set (registered_codes Topic)
   \<and> Num 4 \<in> set (registered_codes ProposalStatus)
   \<and> (\<exists>name. js_index Topic (Number (Num 13)) = Str name
              \<and> js_index Topic (Str name) = Number (Num 13))
   \<and> (\<exists>name. js_index ProposalStatus (Number (Num 4)) = Str name
              \<and> js_index ProposalStatus (Str name) = Number (Num 4))"
proof -
  have t: "Num 13 \<in> set (registered_codes Topic)"
    by (simp add: Topic_codes)
  have s: "Num 4 \<in> set (registered_codes ProposalStatus)"
    by (simp add: ProposalStatus_codes)
  show ?thesis
    using t s registry_round_trip by blast
qed


subsection \<open>The request\<close>

lemma exclude_loop_filter:
  "exclude_loop t es acc =
     acc @ filter (\<lambda>x. strict_neq x t) (filter (\<lambda>x. \<not> isNaN x) (map (\<lambda>e. parseInt (fst e) None) es))"
  by (induction es arbitrary: acc) (auto simp: Let_def)

lemma exclude_topic_codes:
  "exclude_loop t (Object_entries Topic) [] = filter (\<lambda>x. x \<noteq> t) (registered_codes Topic)"
proof -
  have "filter (\<lambda>x. strict_neq x t) (registered_codes Topic) = filter (\<lambda>x. x \<noteq> t) (registered_codes Topic)"
    unfolding Topic_codes by (rule filter_cong) (auto simp: strict_neq_def)
  then show ?thesis
    by (simp add: exclude_loop_filter Topic_entry_codes Topic_codes)
qed

lemma Topic_code_set: "set (registered_codes Topic) = Num ` ({0..10} \<union> {12..18})"
proof -
  have "{0..10} \<union> {12..18} = set ([0..10] @ [12..18])"
    by (simp only: set_append set_upto)
  also have "[0..10] @ [12..18] = [0, 1, 2, 3, 4, 5, 6, 7, 8, 9, 10, 12, 13, 14, 15, 16, 17, 18 :: int]"
    by (simp add: upto_rec1)
  finally show ?thesis
    unfolding Topic_codes by (simp only: set_map)
qed

lemma sint_ToInt32: "0 \<le> k \<Longrightarrow> k < 2 ^ 31 \<Longrightarrow> sint (ToInt32 (Num k)) = k"
  by (simp add: ToInt32_def sint_sbintrunc' signed_take_bit_int_eq_self)

text \<open>
  C1, as amended. Whatever the command, the request built from the parsed values has: with
  a topic filter \<open>t\<close>, an \<open>exclude_topic\<close> whose set is the registered Topic codes
  (0 to 10 and 12 to 18) without \<open>t\<close>; with a status filter \<open>s\<close>, an \<open>include_status\<close>
  of one 32-bit element, \<open>s\<close> reduced by \<open>ToInt32\<close>, which reads as \<open>s\<close> when \<open>s\<close> is
  below \<open>2 ^ 31\<close>; and the corresponding list empty when a filter is absent.
\<close>

theorem request_filters:
  assumes "parse_command msg = (lim, topicFilter, statusFilter)"
  shows "(\<forall>t. topicFilter = Some t \<longrightarrow>
            set (exclude_topic (build_request (Some lim) statusFilter topicFilter))
              = set (registered_codes Topic) - {t})
       \<and> set (registered_codes Topic) = Num ` ({0..10} \<union> {12..18})
       \<and> (topicFilter = None \<longrightarrow>
            exclude_topic (build_request (Some lim) statusFilter topicFilter) = [])
       \<and> (\<forall>s. statusFilter = Some s \<longrightarrow>
            include_status (build_request (Some lim) statusFilter topicFilter) = [ToInt32 s])
       \<and> (\<forall>k. statusFilter = Some (Num k) \<and> 0 \<le> k \<and> k < 2 ^ 31 \<longrightarrow>
            map sint (include_status (build_request (Some lim) statusFilter topicFilter)) = [k])
       \<and> (statusFilter = None \<longrightarrow>
            include_status (build_request (Some lim) statusFilter topicFilter) = [])"
proof (intro conjI allI impI)
  fix t assume "topicFilter = Some t"
  then show "set (exclude_topic (build_request (Some lim) statusFilter topicFilter))
               = set (registered_codes Topic) - {t}"
    by (auto simp: build_request_def exclude_topic_codes)
next
  show "set (registered_codes Topic) = Num ` ({0..10} \<union> {12..18})"
    by (rule Topic_code_set)
next
  assume "topicFilter = None"
  then show "exclude_topic (build_request (Some lim) statusFilter topicFilter) = []"
    by (simp add: build_request_def)
next
  fix s assume "statusFilter = Some s"
  then show "include_status (build_request (Some lim) statusFilter topicFilter) = [ToInt32 s]"
    by (simp add: build_request_def)
next
  fix k assume "statusFilter = Some (Num k) \<and> 0 \<le> k \<and> k < 2 ^ 31"
  then show "map sint (include_status (build_request (Some lim) statusFilter topicFilter)) = [k]"
    by (simp add: build_request_def sint_ToInt32)
next
  assume "statusFilter = None"
  then show "include_status (build_request (Some lim) statusFilter topicFilter) = []"
    by (simp add: build_request_def)
qed

lemmas parse_ev = parse_command_def regex_match_def proposals_re_def limit_group_def
  filter_group_def group_def ascii_def canonicalize_def is_space_def is_digit_def parseInt_def
  is_radix_digit_def digit_val_def to_double_def

lemma parse_topic_status:
  "parse_command (ascii ''!proposals 20 topic 13 status 4'') = (Num 20, Some (Num 13), Some (Num 4))"
  by (simp add: parse_ev)

theorem request_filters_witness:
  "parse_command (ascii ''!proposals 20 topic 13 status 4'') = (Num 20, Some (Num 13), Some (Num 4))
   \<and> set (exclude_topic (build_request (Some (Num 20)) (Some (Num 4)) (Some (Num 13))))
       = Num ` ({0..10} \<union> {12..18}) - {Num 13}
   \<and> include_status (build_request (Some (Num 20)) (Some (Num 4)) (Some (Num 13))) = [4]
   \<and> map sint (include_status (build_request (Some (Num 20)) (Some (Num 4)) (Some (Num 13)))) = [4]"
proof -
  note w = request_filters [OF parse_topic_status]
  have "set (exclude_topic (build_request (Some (Num 20)) (Some (Num 4)) (Some (Num 13))))
          = Num ` ({0..10} \<union> {12..18}) - {Num 13}"
    using w by simp
  moreover have "include_status (build_request (Some (Num 20)) (Some (Num 4)) (Some (Num 13))) = [4]"
    using w by (simp add: ToInt32_def)
  ultimately show ?thesis
    using parse_topic_status by simp
qed

text \<open>
  At \<open>!proposals 10 status 2147483648\<close> the status filter parsed is 2147483648 and
  the request's \<open>include_status\<close> holds \<open>- 2147483648\<close>.
\<close>

lemma parse_big_status:
  "parse_command (ascii ''!proposals 10 status 2147483648'') = (Num 10, None, Some (Num 2147483648))"
  by (simp add: parse_ev)

theorem include_status_counterexample:
  "parse_command (ascii ''!proposals 10 status 2147483648'') = (Num 10, None, Some (Num 2147483648))
   \<and> map sint (include_status (build_request (Some (Num 10)) (Some (Num 2147483648)) None))
       = [- 2147483648]
   \<and> map sint (include_status (build_request (Some (Num 10)) (Some (Num 2147483648)) None))
       \<noteq> [2147483648]"
  by (simp add: parse_big_status build_request_def ToInt32_def)

text \<open>
  C10. Whatever its arguments, the request has \<open>include_reward_status\<close>,
  \<open>omit_large_fields\<close>, \<open>before_proposal\<close> and \<open>include_all_manage_neuron_proposals\<close>
  empty, and two requests differ in at most \<open>limit\<close>, \<open>exclude_topic\<close> and
  \<open>include_status\<close>.
\<close>

theorem request_fixed_fields:
  "include_reward_status (build_request l s t) = []
   \<and> omit_large_fields (build_request l s t) = None
   \<and> before_proposal (build_request l s t) = None
   \<and> include_all_manage_neuron_proposals (build_request l s t) = None
   \<and> build_request l' s' t' =
       (build_request l s t)
         \<lparr> limit := limit (build_request l' s' t'),
           exclude_topic := exclude_topic (build_request l' s' t'),
           include_status := include_status (build_request l' s' t') \<rparr>"
  by (simp add: build_request_def)

theorem request_fixed_fields_witness:
  "before_proposal (build_request (Some (Num 20)) (Some (Num 4)) (Some (Num 13))) = None
   \<and> include_reward_status (build_request (Some (Num 20)) (Some (Num 4)) (Some (Num 13))) = []"
  using request_fixed_fields [of "Some (Num 20)" "Some (Num 4)" "Some (Num 13)"] by simp

subsection \<open>Digit strings and parseInt\<close>

lemma nat_digits_nonempty: "nat_digits n \<noteq> []"
  by (subst nat_digits.simps) simp

lemma nat_digits_digits: "list_all is_digit (nat_digits n)"
proof (induction n rule: nat_digits.induct)
  case (1 n)
  show ?case
  proof (cases "n < 10")
    case True
    then show ?thesis
      by (subst nat_digits.simps) (simp add: is_digit_def)
  next
    case False
    have "n mod 10 < 10" by simp
    then have "is_digit (48 + n mod 10)"
      unfolding is_digit_def by linarith
    with False "1.IH" show ?thesis
      by (subst nat_digits.simps) simp
  qed
qed

lemma decimal_value_snoc: "decimal_value (ds @ [u]) = decimal_value ds * 10 + (u - 48)"
  by (simp add: decimal_value_def)

lemma decimal_value_nat_digits: "decimal_value (nat_digits n) = n"
proof (induction n rule: nat_digits.induct)
  case (1 n)
  show ?case
  proof (cases "n < 10")
    case True
    then show ?thesis
      by (subst nat_digits.simps) (simp add: decimal_value_def)
  next
    case False
    with "1.IH" show ?thesis
      by (subst nat_digits.simps) (simp add: decimal_value_snoc)
  qed
qed

lemma is_digit_not_space: "is_digit u \<Longrightarrow> \<not> is_space u"
  by (auto simp: is_digit_def is_space_def)

lemma is_digit_radix: "is_digit u \<Longrightarrow> is_radix_digit 10 u"
  by (auto simp: is_digit_def is_radix_digit_def digit_val_def)

lemma is_digit_val: "is_digit u \<Longrightarrow> the (digit_val u) = u - 48"
  by (auto simp: is_digit_def digit_val_def)

lemma foldl_digits:
  "list_all is_digit d \<Longrightarrow>
   foldl (\<lambda>acc u. acc * 10 + the (digit_val u)) a d = foldl (\<lambda>acc u. acc * 10 + (u - 48)) a d"
  by (induction d arbitrary: a) (simp_all add: is_digit_val)

lemma takeWhile_digits: "list_all is_digit d \<Longrightarrow> takeWhile (is_radix_digit 10) d = d"
  by (induction d) (simp_all add: is_digit_radix)

text \<open>parseInt of a digit string, with radix 10 or with none.\<close>

lemma parseInt_digits:
  assumes ne: "d \<noteq> []" and dig: "list_all is_digit d" and r: "r = None \<or> r = Some 10"
  shows "parseInt d r = to_double (decimal_value d)"
proof -
  obtain u us where d: "d = u # us"
    using ne by (cases d) auto
  have u: "is_digit u" and us: "list_all is_digit us"
    using dig by (simp_all add: d)
  have nospace: "dropWhile is_space d = d"
    using u by (simp add: d is_digit_not_space)
  have nosign: "(hd d = 43) = False" "(hd d = 45) = False"
    using u by (auto simp: is_digit_def d)
  have nohex: "(2 \<le> length d \<and> hd d = 48 \<and> (d ! Suc 0 = 120 \<or> d ! Suc 0 = 88)) = False"
  proof (cases us)
    case Nil
    then show ?thesis by (simp add: d)
  next
    case (Cons v vs)
    then have "is_digit v" using us by simp
    then have "v \<noteq> 120" "v \<noteq> 88" by (auto simp: is_digit_def)
    then show ?thesis by (simp add: d Cons)
  qed
  have Z: "takeWhile (is_radix_digit 10) d = d"
    using dig by (rule takeWhile_digits)
  have val: "foldl (\<lambda>acc u. acc * 10 + the (digit_val u)) 0 d = decimal_value d"
    using dig by (simp add: foldl_digits decimal_value_def)
  from r show ?thesis
  proof
    assume "r = None"
    then show ?thesis
      by (simp add: parseInt_def nospace nosign nohex Let_def Z val ne)
  next
    assume "r = Some 10"
    then show ?thesis
      by (simp add: parseInt_def nospace nosign nohex Let_def Z val ne)
  qed
qed

lemma parseInt_minus_digits:
  assumes ne: "d \<noteq> []" and dig: "list_all is_digit d" and r: "r = None \<or> r = Some 10"
  shows "parseInt (45 # d) r = negate (to_double (decimal_value d))"
proof -
  obtain u us where d: "d = u # us"
    using ne by (cases d) auto
  have u: "is_digit u" and us: "list_all is_digit us"
    using dig by (simp_all add: d)
  have nospace: "is_space 45 = False"
    by (simp add: is_space_def)
  have nohex: "(2 \<le> length d \<and> hd d = 48 \<and> (d ! Suc 0 = 120 \<or> d ! Suc 0 = 88)) = False"
  proof (cases us)
    case Nil
    then show ?thesis by (simp add: d)
  next
    case (Cons v vs)
    then have "is_digit v" using us by simp
    then have "v \<noteq> 120" "v \<noteq> 88" by (auto simp: is_digit_def)
    then show ?thesis by (simp add: d Cons)
  qed
  have Z: "takeWhile (is_radix_digit 10) d = d"
    using dig by (rule takeWhile_digits)
  have val: "foldl (\<lambda>acc u. acc * 10 + the (digit_val u)) 0 d = decimal_value d"
    using dig by (simp add: foldl_digits decimal_value_def)
  from r show ?thesis
  proof
    assume "r = None"
    then show ?thesis
      by (simp add: parseInt_def nospace nohex Let_def Z val ne)
  next
    assume "r = Some 10"
    then show ?thesis
      by (simp add: parseInt_def nospace nohex Let_def Z val ne)
  qed
qed

lemma to_double_exact: "n < 2 ^ 53 \<Longrightarrow> to_double n = Num (int n)"
  by (simp add: to_double_def)

text \<open>Reading back the decimal form of an integer of magnitude below \<open>2 ^ 53\<close>.\<close>

lemma parseInt_int_toString:
  assumes "\<bar>i\<bar> < 2 ^ 53" and r: "r = None \<or> r = Some 10"
  shows "parseInt (int_toString i) r = Num i"
proof (cases "i < 0")
  case True
  have "nat (- i) < 2 ^ 53"
    using assms(1) True by (simp add: nat_less_iff)
  then have "to_double (nat (- i)) = Num (int (nat (- i)))"
    by (rule to_double_exact)
  then show ?thesis
    using True r
    by (simp add: int_toString_def parseInt_minus_digits nat_digits_nonempty nat_digits_digits
        decimal_value_nat_digits negate_def)
next
  case False
  have "nat i < 2 ^ 53"
    using assms(1) False by (simp add: nat_less_iff)
  then have "to_double (nat i) = Num (int (nat i))"
    by (rule to_double_exact)
  then show ?thesis
    using False r
    by (simp add: int_toString_def parseInt_digits nat_digits_nonempty nat_digits_digits
        decimal_value_nat_digits)
qed

lemma sint32_magnitude: "\<bar>sint (w :: 32 word)\<bar> < 2 ^ 53"
proof -
  have "- (2 ^ 31) \<le> sint w" "sint w < 2 ^ 31"
    using sint_ge [of w] sint_lt [of w] by simp_all
  then show ?thesis by simp
qed

lemma parseInt_code: "r = None \<or> r = Some 10 \<Longrightarrow> parseInt (int_toString (sint (w :: 32 word))) r = Num (sint w)"
  using sint32_magnitude by (rule parseInt_int_toString)

subsection \<open>The loop of the provider\<close>

lemma or_default_empty: "or_default s [] = (case s of None \<Rightarrow> [] | Some x \<Rightarrow> x)"
  by (simp add: or_default_def split: option.splits)

lemma strict_neq_Num: "strict_neq (Num a) t = (Num a \<noteq> t)"
  by (auto simp: strict_neq_def)

lemma loop_body_processable:
  assumes "processable gov p"
  shows "loop_body gov tf sf p
           = Inr (if survives gov tf sf p then Some (projection gov p) else None)"
proof -
  from assms obtain i pr d where i: "id_opt p = Some i" and pr: "proposal p = Some pr"
    and d: "get_proposal_info gov i = Inr (Some d)"
    by (auto simp: processable_def resolved_def split: option.splits sum.splits)
  have res: "resolved gov p = Some d"
    by (simp add: resolved_def i d)
  show ?thesis
    by (cases tf; cases sf)
      (simp_all add: loop_body_def i pr d fetchProposalInfo_def res survives_def
        matches_filters_def projection_def parseInt_code strict_neq_Num or_default_empty Let_def)
qed

lemma loop_body_error:
  assumes "\<not> processable gov p"
  shows "\<exists>e. loop_body gov tf sf p = Inl e"
  using assms
  by (auto simp: processable_def resolved_def loop_body_def fetchProposalInfo_def
      split: option.splits sum.splits)

lemma proposals_loop_ok:
  "\<forall>p \<in> set ps. processable gov p \<Longrightarrow>
   proposals_loop gov tf sf ps acc
     = Inr (acc @ map (projection gov) (filter (survives gov tf sf) ps))"
proof (induction ps arbitrary: acc)
  case Nil
  then show ?case by simp
next
  case (Cons p ps)
  then have p: "processable gov p" and ps: "\<forall>p \<in> set ps. processable gov p"
    by simp_all
  show ?case
    by (simp add: loop_body_processable [OF p] Cons.IH [OF ps])
qed

lemma proposals_loop_Inr:
  "proposals_loop gov tf sf ps acc = Inr rs \<Longrightarrow> \<forall>p \<in> set ps. processable gov p"
proof (induction ps arbitrary: acc)
  case Nil
  then show ?case by simp
next
  case (Cons p ps)
  show ?case
  proof (cases "processable gov p")
    case True
    with Cons show ?thesis
      by (auto simp: loop_body_processable split: if_splits)
  next
    case False
    then obtain e where "loop_body gov tf sf p = Inl e"
      using loop_body_error by blast
    with Cons.prems show ?thesis by simp
  qed
qed

lemma get_ok:
  assumes "parse_command msg = (lim, tf, sf)"
    and "list_proposals gov (build_request (Some lim) sf tf) = Inr items"
    and "\<forall>p \<in> set items. processable gov p"
  shows "get gov msg = Inr (map (projection gov) (filter (survives gov tf sf) items))"
  using assms by (simp add: get_def fetchProposals_def proposals_loop_ok)

lemma get_Inr:
  assumes "get gov msg = Inr rs" and "parse_command msg = (lim, tf, sf)"
  shows "\<exists>items. list_proposals gov (build_request (Some lim) sf tf) = Inr items
           \<and> (\<forall>p \<in> set items. processable gov p)
           \<and> rs = map (projection gov) (filter (survives gov tf sf) items)"
proof -
  from assms obtain items where items: "list_proposals gov (build_request (Some lim) sf tf) = Inr items"
    and loop: "proposals_loop gov tf sf items [] = Inr rs"
    by (auto simp: get_def fetchProposals_def split: sum.splits)
  have ok: "\<forall>p \<in> set items. processable gov p"
    using loop by (rule proposals_loop_Inr)
  then have "rs = map (projection gov) (filter (survives gov tf sf) items)"
    using loop by (simp add: proposals_loop_ok)
  with items ok show ?thesis by blast
qed

lemma parse_default: "parse_command (ascii ''!proposals'') = (Num 10, None, None)"
  by (simp add: parse_ev)

lemma parse_topic: "parse_command (ascii ''!proposals 20 topic 13'') = (Num 20, Some (Num 13), None)"
  by (simp add: parse_ev)

lemmas sample_ev = sample_ledger_def sample_listing_def sample_info_def processable_def
  resolved_def survives_def matches_filters_def

lemma sample_list: "list_proposals sample_ledger req = Inr sample_listing"
  by (simp add: sample_ledger_def)

lemma sample_processable: "\<forall>p \<in> set sample_listing. processable sample_ledger p"
  by (simp add: sample_ev)

lemma sample_survivors_topic:
  "filter (survives sample_ledger (Some (Num 13)) None) sample_listing
     = [sample_listing ! 0, sample_listing ! 2]"
  by (simp add: sample_ev)

lemma sample_survivors_both:
  "filter (survives sample_ledger (Some (Num 13)) (Some (Num 4))) sample_listing
     = [sample_listing ! 0]"
  by (simp add: sample_ev)


subsection \<open>The output of the provider\<close>

text \<open>
  C7. Let the list call return \<open>items\<close>. When every listed proposal can be processed,
  \<open>get\<close> returns the projections of the items that survive the filters, one per
  surviving item, in the order of \<open>items\<close>; and whenever \<open>get\<close> returns an output at
  all, that output is this sequence. Nothing is sorted.
\<close>

theorem emitted_in_list_order:
  assumes "parse_command msg = (lim, tf, sf)"
    and "list_proposals gov (build_request (Some lim) sf tf) = Inr items"
  shows "((\<forall>p \<in> set items. processable gov p) \<longrightarrow>
            get gov msg = Inr (map (projection gov) (filter (survives gov tf sf) items)))
       \<and> (\<forall>rs. get gov msg = Inr rs \<longrightarrow>
            rs = map (projection gov) (filter (survives gov tf sf) items))"
proof (intro conjI allI impI)
  assume "\<forall>p \<in> set items. processable gov p"
  with assms show "get gov msg = Inr (map (projection gov) (filter (survives gov tf sf) items))"
    by (rule get_ok)
next
  fix rs assume "get gov msg = Inr rs"
  from get_Inr [OF this assms(1)] assms(2)
  show "rs = map (projection gov) (filter (survives gov tf sf) items)"
    by auto
qed

theorem emitted_in_list_order_witness:
  "get sample_ledger (ascii ''!proposals 20 topic 13'')
     = Inr (map (projection sample_ledger) [sample_listing ! 0, sample_listing ! 2])"
proof -
  have "get sample_ledger (ascii ''!proposals 20 topic 13'')
          = Inr (map (projection sample_ledger)
                  (filter (survives sample_ledger (Some (Num 13)) None) sample_listing))"
    using emitted_in_list_order [OF parse_topic sample_list] sample_processable by blast
  then show ?thesis
    by (simp only: sample_survivors_topic)
qed

text \<open>
  C2. Every record \<open>get\<close> emits satisfies both parsed filters at once: with a topic
  filter \<open>t\<close> the code read from its \<open>topic\<close> field is \<open>t\<close>, with a status filter \<open>s\<close>
  the code read from its \<open>status\<close> field is \<open>s\<close>, and the record is the projection of a
  listed proposal whose resolved detail matches both filters.
\<close>

theorem emitted_satisfy_filters:
  assumes "parse_command msg = (lim, tf, sf)" and "get gov msg = Inr rs" and "r \<in> set rs"
  shows "(\<forall>t. tf = Some t \<longrightarrow> field_code (out_topic r) = t)
       \<and> (\<forall>s. sf = Some s \<longrightarrow> field_code (out_status r) = s)
       \<and> (\<exists>p d. resolved gov p = Some d \<and> r = projection gov p \<and> matches_filters tf sf d)"
proof -
  from get_Inr [OF assms(2) assms(1)] obtain items
    where rs: "rs = map (projection gov) (filter (survives gov tf sf) items)"
    by blast
  with assms(3) obtain p where r: "r = projection gov p" and s: "survives gov tf sf p"
    by auto
  from s obtain d where d: "resolved gov p = Some d" and m: "matches_filters tf sf d"
    by (auto simp: survives_def split: option.splits)
  have t: "field_code (out_topic r) = Num (sint (topic d))"
    and st: "field_code (out_status r) = Num (sint (status d))"
    by (simp_all add: r projection_def d parseInt_code Let_def)
  have "\<forall>t'. tf = Some t' \<longrightarrow> field_code (out_topic r) = t'"
    and "\<forall>s'. sf = Some s' \<longrightarrow> field_code (out_status r) = s'"
    using m by (auto simp: t st matches_filters_def)
  then show ?thesis
    using m d r by blast
qed

theorem emitted_satisfy_filters_witness:
  "get sample_ledger (ascii ''!proposals 20 topic 13 status 4'')
     = Inr [projection sample_ledger (sample_listing ! 0)]
   \<and> field_code (out_topic (projection sample_ledger (sample_listing ! 0))) = Num 13
   \<and> field_code (out_status (projection sample_ledger (sample_listing ! 0))) = Num 4"
proof -
  have g: "get sample_ledger (ascii ''!proposals 20 topic 13 status 4'')
             = Inr [projection sample_ledger (sample_listing ! 0)]"
    using get_ok [OF parse_topic_status sample_list sample_processable]
    by (simp only: sample_survivors_both list.map)
  have mem: "projection sample_ledger (sample_listing ! 0)
               \<in> set [projection sample_ledger (sample_listing ! 0)]"
    by simp
  show ?thesis
    using emitted_satisfy_filters [OF parse_topic_status g mem] g by simp
qed





text \<open>
  C9. A listed proposal whose title is absent is emitted with \<open>title\<close> undefined (the
  field is omitted), one whose summary is absent is emitted with the empty string as
  \<open>summary\<close> (the earlier revision's summary line gives its placeholder), and in both
  cases the query returns its output with the proposal's record in it.
\<close>

theorem absent_title_summary:
  assumes "parse_command msg = (lim, tf, sf)"
    and "list_proposals gov (build_request (Some lim) sf tf) = Inr items"
    and "\<forall>q \<in> set items. processable gov q"
    and "p \<in> set items" and "survives gov tf sf p"
  shows "(\<exists>rs. get gov msg = Inr rs \<and> projection gov p \<in> set rs)
       \<and> (title (the (proposal p)) = None \<longrightarrow> out_title (projection gov p) = Undefined)
       \<and> (summary (the (proposal p)) = None \<longrightarrow> out_summary (projection gov p) = Str [])
       \<and> (summary (the (proposal p)) = None \<longrightarrow>
            summary_or_placeholder (the (proposal p)) = ascii ''No summary provided'')"
proof -
  have "get gov msg = Inr (map (projection gov) (filter (survives gov tf sf) items))"
    using assms(1-3) by (rule get_ok)
  moreover have "projection gov p \<in> set (map (projection gov) (filter (survives gov tf sf) items))"
    using assms(4,5) by simp
  ultimately have "\<exists>rs. get gov msg = Inr rs \<and> projection gov p \<in> set rs"
    by blast
  then show ?thesis
    by (simp add: projection_def Let_def summary_or_placeholder_def or_default_def)
qed

theorem absent_title_summary_witness:
  "(\<exists>rs. get sample_ledger (ascii ''!proposals'') = Inr rs
          \<and> projection sample_ledger (sample_listing ! 1) \<in> set rs)
   \<and> out_title (projection sample_ledger (sample_listing ! 1)) = Undefined
   \<and> out_summary (projection sample_ledger (sample_listing ! 1)) = Str []"
proof -
  have mem: "sample_listing ! 1 \<in> set sample_listing"
    by (simp add: sample_listing_def)
  have s: "survives sample_ledger None None (sample_listing ! 1)"
    by (simp add: sample_ev)
  have t: "title (the (proposal (sample_listing ! 1))) = None"
    and u: "summary (the (proposal (sample_listing ! 1))) = None"
    by (simp_all add: sample_listing_def sample_info_def)
  show ?thesis
    using absent_title_summary [OF parse_default sample_list sample_processable mem s] t u
    by simp
qed
text \<open>
  C4. On the ledger whose detail fetch for proposal 102 returns nothing, \<open>!proposals\<close>
  ends in a \<open>TypeError\<close>: the item is not skipped, and the records of proposals 101 and
  103 are not returned.
\<close>

theorem missing_detail_aborts:
  "get_proposal_info sample_ledger_gap 102 = Inr None
   \<and> get sample_ledger_gap (ascii ''!proposals'') = Inl TypeError"
  by (simp add: get_def parse_default fetchProposals_def fetchProposalInfo_def loop_body_def
      sample_ledger_gap_def sample_listing_def sample_info_def parseInt_code)

subsection \<open>The pattern on the commands of the grammar\<close>

lemma bitlen_2_53: "bitlen 9007199254740992 = 54"
  by (simp add: bitlen.simps)

lemma to_double_2_53: "to_double 9007199254740992 = Num 9007199254740992"
  by (simp add: to_double_def bitlen_2_53 Let_def)

lemma to_double_exact_le: "n \<le> 2 ^ 53 \<Longrightarrow> to_double n = Num (int n)"
proof (cases "n < 2 ^ 53")
  case True
  then show ?thesis by (rule to_double_exact)
next
  case False
  assume "n \<le> 2 ^ 53"
  with False have n: "n = 9007199254740992" by simp
  show ?thesis
    unfolding n by (simp add: to_double_2_53)
qed

lemma concat_all_empty: "\<forall>x \<in> set xs. f x = [] \<Longrightarrow> concat (map f xs) = []"
  by (induction xs) simp_all

lemma keyword_length: "keyword w k \<Longrightarrow> length k = length w"
  unfolding keyword_def ascii_def
  by (metis length_map)

lemma lit_keyword:
  assumes "keyword w k"
  shows "rmatch (Lit (ascii w)) (k @ s, c) = [(s, c)]"
proof -
  have len: "length (ascii w) = length k"
    using keyword_length [OF assms] by (simp add: ascii_def)
  show ?thesis
    using assms by (simp add: len keyword_def)
qed

lemma lit_fails_hd:
  "canonicalize u \<noteq> canonicalize a \<Longrightarrow> rmatch (Lit (a # l)) (u # s, c) = []"
  by (simp add: take_Cons')

lemma takeWhile_run:
  assumes "list_all P w" and "rest = [] \<or> \<not> P (hd rest)"
  shows "takeWhile P (w @ rest) = w"
proof -
  have "takeWhile P rest = []"
    using assms(2) by (cases rest) auto
  then show ?thesis
    using assms(1) by (simp add: takeWhile_append2 list_all_iff)
qed

lemma plus_run:
  assumes "list_all (in_class k) w" and "rest = [] \<or> \<not> in_class k (hd rest)"
  shows "rmatch (Plus k) (w @ rest, c)
           = map (\<lambda>n. (drop n w @ rest, c)) (rev [1 ..< Suc (length w)])"
  by (auto simp: takeWhile_run [OF assms])

lemma plus_none: "s = [] \<or> \<not> in_class k (hd s) \<Longrightarrow> rmatch (Plus k) (s, c) = []"
  by (cases s) auto

text \<open>After a run of class \<open>k\<close>, a continuation that cannot start on a character of
  \<open>k\<close> only sees the text after the whole run.\<close>

lemma plus_run_head:
  assumes "w \<noteq> []" and "list_all (in_class k) w" and "rest = [] \<or> \<not> in_class k (hd rest)"
  shows "rmatch (Plus k) (w @ rest, c)
           = (rest, c) # map (\<lambda>n. (drop n w @ rest, c)) (rev [1 ..< length w])"
proof -
  have m: "Suc 0 \<le> length w" using assms(1) by (cases w) auto
  have idx: "rev [1 ..< Suc (length w)] = length w # rev [1 ..< length w]"
    using m by simp
  show ?thesis
    unfolding plus_run [OF assms(2,3)] idx by simp
qed

lemma seq_plus:
  assumes ne: "w \<noteq> []" and run: "list_all (in_class k) w"
    and stop: "rest = [] \<or> \<not> in_class k (hd rest)"
    and fails: "\<And>u s c. in_class k u \<Longrightarrow> rmatch r (u # s, c) = []"
  shows "rmatch (Seq (Plus k) r) (w @ rest, c) = rmatch r (rest, c)"
proof -
  have shorter: "rmatch r (drop n w @ rest, c) = []" if "n \<in> set (rev [1 ..< length w])" for n
  proof -
    from that have n: "n < length w" by simp
    then obtain u us where d: "drop n w = u # us"
      by (cases "drop n w") auto
    have "u \<in> set w"
      by (metis d in_set_dropD list.set_intros(1))
    then have "in_class k u"
      using run by (simp add: list_all_iff)
    then show ?thesis
      by (simp add: d fails)
  qed
  have "concat (map (\<lambda>n. rmatch r (drop n w @ rest, c)) (rev [1 ..< length w])) = []"
    by (rule concat_all_empty) (simp add: shorter)
  then show ?thesis
    by (simp add: plus_run_head [OF ne run stop] comp_def del: rmatch.simps(2))
qed

lemma seq_plus_none:
  "s = [] \<or> \<not> in_class k (hd s) \<Longrightarrow> rmatch (Seq (Plus k) r) (s, c) = []"
  using plus_none [of s k c] by (simp del: rmatch.simps(2))

lemma group_digits:
  assumes ne: "d \<noteq> []" and dig: "list_all is_digit d"
    and stop: "rest = [] \<or> \<not> is_digit (hd rest)"
  shows "\<exists>tl. rmatch (Group i (Plus Digit)) (d @ rest, c) = (rest, c(i \<mapsto> d)) # tl"
proof -
  have run: "list_all (in_class Digit) d" using dig by (simp add: list_all_iff)
  have stop': "rest = [] \<or> \<not> in_class Digit (hd rest)" using stop by simp
  show ?thesis
    by (simp add: plus_run_head [OF ne run stop'] del: rmatch.simps(2))
qed

lemma group_none:
  "s = [] \<or> \<not> is_digit (hd s) \<Longrightarrow> rmatch (Group i (Plus Digit)) (s, c) = []"
  by (cases s) auto

lemma seq_head:
  "rmatch r1 st = x # xs \<Longrightarrow> rmatch r2 x = y # ys \<Longrightarrow> \<exists>tl. rmatch (Seq r1 r2) st = y # tl"
  by simp

lemma seq_single: "rmatch r1 st = [x] \<Longrightarrow> rmatch (Seq r1 r2) st = rmatch r2 x"
  by simp

lemma space_canonicalize: "is_space u \<Longrightarrow> canonicalize u = u"
  by (auto simp: is_space_def canonicalize_def)

lemma digit_canonicalize: "is_digit u \<Longrightarrow> canonicalize u = u"
  by (auto simp: is_digit_def canonicalize_def)

lemma letter_not_space: "canonicalize u = 83 \<or> canonicalize u = 84 \<Longrightarrow> \<not> is_space u"
proof
  assume c: "canonicalize u = 83 \<or> canonicalize u = 84" and s: "is_space u"
  from s have "canonicalize u = u" by (rule space_canonicalize)
  with c have "u = 83 \<or> u = 84" by simp
  with s show False by (auto simp: is_space_def)
qed

lemma letter_not_digit: "canonicalize u = 83 \<or> canonicalize u = 84 \<Longrightarrow> \<not> is_digit u"
proof
  assume c: "canonicalize u = 83 \<or> canonicalize u = 84" and s: "is_digit u"
  from s have "canonicalize u = u" by (rule digit_canonicalize)
  with c have "u = 83 \<or> u = 84" by simp
  with s show False by (auto simp: is_digit_def)
qed

lemma keyword_topic: "keyword ''topic'' k \<Longrightarrow> \<exists>u k'. k = u # k' \<and> canonicalize u = 84"
  by (cases k) (auto simp: keyword_def ascii_def canonicalize_def)

lemma keyword_status: "keyword ''status'' k \<Longrightarrow> \<exists>u k'. k = u # k' \<and> canonicalize u = 83"
  by (cases k) (auto simp: keyword_def ascii_def canonicalize_def)

lemma ascii_topic: "\<exists>l. ascii ''topic'' = 116 # l \<and> canonicalize 116 = 84"
  by (simp add: ascii_def canonicalize_def)

lemma ascii_status: "\<exists>l. ascii ''status'' = 115 # l \<and> canonicalize 115 = 83"
  by (simp add: ascii_def canonicalize_def)

lemma whitespace_run: "whitespace w \<Longrightarrow> w \<noteq> [] \<and> list_all (in_class Space) w"
  by (simp add: whitespace_def list_all_iff)

lemma whitespace_hd: "whitespace w \<Longrightarrow> is_space (hd (w @ s))"
  by (cases w) (auto simp: whitespace_def)

lemma uint_hd: "uint_literal d \<Longrightarrow> is_digit (hd (d @ s))"
  by (cases d) (auto simp: uint_literal_def)

text \<open>A filter group on its own text.\<close>

lemma filter_group_match:
  assumes w1: "whitespace w1" and k: "keyword name k" and w2: "whitespace w2"
    and d: "uint_literal d" and stop: "rest = [] \<or> \<not> is_digit (hd rest)"
    and name: "ascii name = a # l" "canonicalize a = 83 \<or> canonicalize a = 84"
  shows "\<exists>tl. rmatch (filter_group i name) (w1 @ k @ w2 @ d @ rest, c) = (rest, c(i \<mapsto> d)) # tl"
proof -
  let ?digits = "Group i (Plus Digit)"
  let ?after_kw = "Seq (Plus Space) ?digits"
  let ?after_ws = "Seq (Lit (ascii name)) ?after_kw"
  from k name obtain u k' where ku: "k = u # k'" and cu: "canonicalize u = canonicalize a"
    by (cases k) (auto simp: keyword_def)
  have u_letter: "canonicalize u = 83 \<or> canonicalize u = 84"
    using cu name(2) by simp
  have stop1: "k @ w2 @ d @ rest = [] \<or> \<not> in_class Space (hd (k @ w2 @ d @ rest))"
    using letter_not_space [OF u_letter] by (simp add: ku)
  have fails1: "rmatch ?after_ws (v # s, c') = []" if "in_class Space v" for v s c'
  proof -
    from that have "canonicalize v = v" by (simp add: space_canonicalize)
    moreover have "\<not> (canonicalize v = 83 \<or> canonicalize v = 84)"
      using letter_not_space [of v] that by auto
    ultimately have "canonicalize v \<noteq> canonicalize a"
      using name(2) by auto
    then have "rmatch (Lit (ascii name)) (v # s, c') = []"
      unfolding name(1) by (rule lit_fails_hd)
    then show ?thesis by (simp del: rmatch.simps(1,2))
  qed
  have s1: "rmatch (filter_group i name) (w1 @ k @ w2 @ d @ rest, c)
              = rmatch ?after_ws (k @ w2 @ d @ rest, c)"
    unfolding filter_group_def
    using whitespace_run [OF w1] stop1 fails1 by (intro seq_plus) auto
  have s2: "rmatch ?after_ws (k @ w2 @ d @ rest, c) = rmatch ?after_kw (w2 @ d @ rest, c)"
    using lit_keyword [OF k, of "w2 @ d @ rest" c] by (simp del: rmatch.simps(1,2,3))
  have stop3: "d @ rest = [] \<or> \<not> in_class Space (hd (d @ rest))"
    using uint_hd [OF d, of rest] by (simp add: is_digit_not_space)
  have fails3: "rmatch ?digits (v # s, c') = []" if "in_class Space v" for v s c'
  proof -
    have "\<not> is_digit v" using that is_digit_not_space by auto
    then show ?thesis by (intro group_none) simp
  qed
  have s3: "rmatch ?after_kw (w2 @ d @ rest, c) = rmatch ?digits (d @ rest, c)"
    using whitespace_run [OF w2] stop3 fails3 by (intro seq_plus) auto
  have "\<exists>tl. rmatch ?digits (d @ rest, c) = (rest, c(i \<mapsto> d)) # tl"
    using d stop by (intro group_digits) (auto simp: uint_literal_def)
  then show ?thesis
    by (simp only: s1 s2 s3)
qed

lemma filter_group_empty: "rmatch (filter_group i name) ([], c) = []"
  unfolding filter_group_def by (rule seq_plus_none) simp

text \<open>The topic group on the text of a status part.\<close>

lemma topic_group_on_status:
  assumes w1: "whitespace w1" and k: "keyword ''status'' k"
  shows "rmatch (filter_group i ''topic'') (w1 @ k @ s, c) = []"
proof -
  let ?after_ws = "Seq (Lit (ascii ''topic'')) (Seq (Plus Space) (Group i (Plus Digit)))"
  from keyword_status [OF k] obtain u k' where ku: "k = u # k'" and cu: "canonicalize u = 83"
    by blast
  obtain l where l: "ascii ''topic'' = 116 # l" and c116: "canonicalize 116 = 84"
    using ascii_topic by blast
  have stop1: "k @ s = [] \<or> \<not> in_class Space (hd (k @ s))"
    using letter_not_space [of u] cu by (simp add: ku)
  have lit_fails: "rmatch (Lit (ascii ''topic'')) (v # t, c') = []"
    if "canonicalize v \<noteq> 84" for v t c'
    unfolding l using that c116 by (intro lit_fails_hd) simp
  have fails1: "rmatch ?after_ws (v # t, c') = []" if "in_class Space v" for v t c'
  proof -
    have "canonicalize v \<noteq> 84"
      using letter_not_space [of v] that by auto
    then show ?thesis
      using lit_fails by (simp del: rmatch.simps(1,2))
  qed
  have "rmatch (filter_group i ''topic'') (w1 @ k @ s, c) = rmatch ?after_ws (k @ s, c)"
    unfolding filter_group_def
    using whitespace_run [OF w1] stop1 fails1 by (intro seq_plus) auto
  also have "\<dots> = []"
    using lit_fails [of u] cu by (simp add: ku del: rmatch.simps(1,2))
  finally show ?thesis .
qed

lemma limit_group_match:
  assumes w: "whitespace w" and d: "uint_literal d" and stop: "rest = [] \<or> \<not> is_digit (hd rest)"
  shows "\<exists>tl. rmatch limit_group (w @ d @ rest, c) = (rest, c(1 \<mapsto> d)) # tl"
proof -
  let ?digits = "Group 1 (Plus Digit)"
  have stop1: "d @ rest = [] \<or> \<not> in_class Space (hd (d @ rest))"
    using uint_hd [OF d, of rest] by (simp add: is_digit_not_space)
  have fails1: "rmatch ?digits (v # s, c') = []" if "in_class Space v" for v s c'
  proof -
    have "\<not> is_digit v" using that is_digit_not_space by auto
    then show ?thesis by (intro group_none) simp
  qed
  have "rmatch limit_group (w @ d @ rest, c) = rmatch ?digits (d @ rest, c)"
    unfolding limit_group_def
    using whitespace_run [OF w] stop1 fails1 by (intro seq_plus) auto
  moreover have "\<exists>tl. rmatch ?digits (d @ rest, c) = (rest, c(1 \<mapsto> d)) # tl"
    using d stop by (intro group_digits) (auto simp: uint_literal_def)
  ultimately show ?thesis by simp
qed

lemma limit_group_empty: "rmatch limit_group ([], c) = []"
  unfolding limit_group_def by (rule seq_plus_none) simp

text \<open>The limit group on the text of a topic or status part.\<close>

lemma limit_group_on_filter:
  assumes w1: "whitespace w1" and k: "k = u # k'" "canonicalize u = 83 \<or> canonicalize u = 84"
  shows "rmatch limit_group (w1 @ k @ s, c) = []"
proof -
  let ?digits = "Group 1 (Plus Digit)"
  have stop1: "k @ s = [] \<or> \<not> in_class Space (hd (k @ s))"
    using letter_not_space [OF k(2)] by (simp add: k(1))
  have fails1: "rmatch ?digits (v # t, c') = []" if "in_class Space v" for v t c'
  proof -
    have "\<not> is_digit v" using that is_digit_not_space by auto
    then show ?thesis by (intro group_none) simp
  qed
  have "rmatch limit_group (w1 @ k @ s, c) = rmatch ?digits (k @ s, c)"
    unfolding limit_group_def
    using whitespace_run [OF w1] stop1 fails1 by (intro seq_plus) auto
  also have "\<dots> = []"
    using letter_not_digit [OF k(2)] by (intro group_none) (simp add: k(1))
  finally show ?thesis .
qed

lemma eos_empty: "rmatch Eos ([], c) = [([], c)]"
  by simp

lemma opt_none: "rmatch r st = [] \<Longrightarrow> rmatch (Opt r) st = [st]"
  by simp

lemma opt_head: "rmatch r st = x # xs \<Longrightarrow> rmatch (Opt r) st = x # (xs @ [st])"
  by simp

lemma filter_text_not_digit:
  assumes "filter_ok name x"
  shows "filter_text x = [] \<or> \<not> is_digit (hd (filter_text x))"
proof (cases x)
  case None
  then show ?thesis by simp
next
  case (Some f)
  obtain w1 k w2 d where f: "f = (w1, k, w2, d)" by (cases f)
  have "is_space (hd (w1 @ k @ w2 @ d))"
    using assms by (simp add: Some f whitespace_hd)
  then show ?thesis
    using is_digit_not_space by (auto simp: Some f)
qed

text \<open>The end of the pattern, from the status group on, on the text of the status part.\<close>

lemma status_tail:
  assumes "filter_ok ''status'' st"
  shows "\<exists>tl. rmatch (Seq (Opt (filter_group 3 ''status'')) Eos) (filter_text st, c)
            = ([], case filter_digits st of None \<Rightarrow> c | Some d \<Rightarrow> c(3 \<mapsto> d)) # tl"
proof (cases st)
  case None
  have "rmatch (Opt (filter_group 3 ''status'')) ([], c) = [([], c)]"
    by (rule opt_none) (rule filter_group_empty)
  then have "rmatch (Seq (Opt (filter_group 3 ''status'')) Eos) ([], c) = rmatch Eos ([], c)"
    by (rule seq_single)
  then show ?thesis
    by (simp add: None del: rmatch.simps(4,5))
next
  case (Some f)
  obtain w1 k w2 d where f: "f = (w1, k, w2, d)" by (cases f)
  obtain l where l: "ascii ''status'' = 115 # l" "canonicalize 115 = 83 \<or> canonicalize 115 = 84"
    using ascii_status by blast
  have ok: "whitespace w1" "keyword ''status'' k" "whitespace w2" "uint_literal d"
    using assms by (simp_all add: Some f)
  from filter_group_match [OF ok _ l, of "[]" 3 c]
  obtain tl where "rmatch (filter_group 3 ''status'') (w1 @ k @ w2 @ d, c) = ([], c(3 \<mapsto> d)) # tl"
    by auto
  then have "rmatch (Opt (filter_group 3 ''status'')) (w1 @ k @ w2 @ d, c)
               = ([], c(3 \<mapsto> d)) # (tl @ [(w1 @ k @ w2 @ d, c)])"
    by (rule opt_head)
  from seq_head [OF this eos_empty] show ?thesis
    by (simp add: Some f del: rmatch.simps)
qed

text \<open>From the topic group on, on the text of the topic and status parts.\<close>

lemma topic_tail:
  assumes tp: "filter_ok ''topic'' tp" and st: "filter_ok ''status'' st"
  shows "\<exists>tl. rmatch (Seq (Opt (filter_group 2 ''topic'')) (Seq (Opt (filter_group 3 ''status'')) Eos))
               (filter_text tp @ filter_text st, c)
            = ([], case filter_digits st of
                     None \<Rightarrow> (case filter_digits tp of None \<Rightarrow> c | Some d \<Rightarrow> c(2 \<mapsto> d))
                   | Some e \<Rightarrow> (case filter_digits tp of None \<Rightarrow> c | Some d \<Rightarrow> c(2 \<mapsto> d))(3 \<mapsto> e)) # tl"
proof (cases tp)
  case None
  have "rmatch (filter_group 2 ''topic'') (filter_text st, c) = []"
  proof (cases st)
    case None
    then show ?thesis by (simp add: filter_group_empty del: rmatch.simps)
  next
    case (Some f)
    obtain w1 k w2 d where f: "f = (w1, k, w2, d)" by (cases f)
    have "whitespace w1" "keyword ''status'' k"
      using st by (simp_all add: Some f)
    then show ?thesis
      by (simp add: Some f topic_group_on_status del: rmatch.simps)
  qed
  then have "rmatch (Opt (filter_group 2 ''topic'')) (filter_text st, c) = [(filter_text st, c)]"
    by (rule opt_none)
  then have "rmatch (Seq (Opt (filter_group 2 ''topic'')) (Seq (Opt (filter_group 3 ''status'')) Eos))
               (filter_text st, c)
             = rmatch (Seq (Opt (filter_group 3 ''status'')) Eos) (filter_text st, c)"
    by (rule seq_single)
  with status_tail [OF st, of c] show ?thesis
    by (cases "filter_digits st") (simp_all add: None del: rmatch.simps)
next
  case (Some f)
  obtain w1 k w2 d where f: "f = (w1, k, w2, d)" by (cases f)
  obtain l where l: "ascii ''topic'' = 116 # l" "canonicalize 116 = 83 \<or> canonicalize 116 = 84"
    using ascii_topic by blast
  have ok: "whitespace w1" "keyword ''topic'' k" "whitespace w2" "uint_literal d"
    using tp by (simp_all add: Some f)
  have stop: "filter_text st = [] \<or> \<not> is_digit (hd (filter_text st))"
    using st by (rule filter_text_not_digit)
  from filter_group_match [OF ok stop l, of 2 c]
  obtain tl where "rmatch (filter_group 2 ''topic'') (w1 @ k @ w2 @ d @ filter_text st, c)
                     = (filter_text st, c(2 \<mapsto> d)) # tl"
    by auto
  then have o: "rmatch (Opt (filter_group 2 ''topic'')) (w1 @ k @ w2 @ d @ filter_text st, c)
               = (filter_text st, c(2 \<mapsto> d)) # (tl @ [(w1 @ k @ w2 @ d @ filter_text st, c)])"
    by (rule opt_head)
  from status_tail [OF st, of "c(2 \<mapsto> d)"] obtain tl'
    where "rmatch (Seq (Opt (filter_group 3 ''status'')) Eos) (filter_text st, c(2 \<mapsto> d))
             = ([], case filter_digits st of None \<Rightarrow> c(2 \<mapsto> d) | Some e \<Rightarrow> c(2 \<mapsto> d, 3 \<mapsto> e)) # tl'"
    by blast
  from seq_head [OF o this] show ?thesis
    by (cases "filter_digits st") (simp_all add: Some f del: rmatch.simps)
qed

lemma filter_text_lead:
  assumes "filter_ok name x" and "name = ''topic'' \<or> name = ''status''" and "x \<noteq> None"
  shows "\<exists>w1 u k' s. filter_text x = w1 @ (u # k') @ s \<and> whitespace w1
            \<and> (canonicalize u = 83 \<or> canonicalize u = 84)"
proof -
  from assms(3) obtain w1 k w2 d where x: "x = Some (w1, k, w2, d)"
    by (cases x) auto
  have w1: "whitespace w1" and k: "keyword name k"
    using assms(1) by (simp_all add: x)
  have "\<exists>u k'. k = u # k' \<and> (canonicalize u = 83 \<or> canonicalize u = 84)"
  proof (rule disjE [OF assms(2)])
    assume "name = ''topic''"
    with k have "keyword ''topic'' k" by (simp only:)
    from keyword_topic [OF this] show ?thesis by blast
  next
    assume "name = ''status''"
    with k have "keyword ''status'' k" by (simp only:)
    from keyword_status [OF this] show ?thesis by blast
  qed
  then obtain u k' where "k = u # k'" "canonicalize u = 83 \<or> canonicalize u = 84"
    by blast
  then show ?thesis
    using w1 by (auto simp: x)
qed

lemma parts_lead:
  assumes tp: "filter_ok ''topic'' tp" and st: "filter_ok ''status'' st"
    and some: "\<not> (tp = None \<and> st = None)"
  shows "\<exists>w1 u k' s. filter_text tp @ filter_text st = w1 @ (u # k') @ s \<and> whitespace w1
            \<and> (canonicalize u = 83 \<or> canonicalize u = 84)"
proof (cases tp)
  case None
  with some have s: "st \<noteq> None" by simp
  have "''status'' = ''topic'' \<or> ''status'' = ''status''" by simp
  from filter_text_lead [OF st this s] show ?thesis
    by (simp only: None filter_text.simps append_Nil)
next
  case (Some f)
  then have t: "tp \<noteq> None" by simp
  have "''topic'' = ''topic'' \<or> ''topic'' = ''status''" by simp
  from filter_text_lead [OF tp this t] obtain w1 u k' s
    where a: "filter_text tp = w1 @ (u # k') @ s" and b: "whitespace w1"
      and c: "canonicalize u = 83 \<or> canonicalize u = 84"
    by blast
  have "filter_text tp @ filter_text st = w1 @ (u # k') @ (s @ filter_text st)"
    by (simp add: a)
  with b c show ?thesis by blast
qed


lemma limit_group_on_parts:
  assumes tp: "filter_ok ''topic'' tp" and st: "filter_ok ''status'' st"
  shows "rmatch limit_group (filter_text tp @ filter_text st, c) = []"
proof (cases "tp = None \<and> st = None")
  case True
  then show ?thesis by (simp add: limit_group_empty del: rmatch.simps)
next
  case False
  from parts_lead [OF tp st False] obtain w1 u k' s
    where T: "filter_text tp @ filter_text st = w1 @ (u # k') @ s" and w1: "whitespace w1"
      and u: "canonicalize u = 83 \<or> canonicalize u = 84"
    by blast
  have "rmatch limit_group (w1 @ (u # k') @ s, c) = []"
    using w1 refl u by (rule limit_group_on_filter)
  then show ?thesis
    by (simp only: T)
qed

lemma parts_not_digit:
  assumes tp: "filter_ok ''topic'' tp" and st: "filter_ok ''status'' st"
  shows "filter_text tp @ filter_text st = [] \<or> \<not> is_digit (hd (filter_text tp @ filter_text st))"
proof (cases "filter_text tp = []")
  case True
  then show ?thesis
    using filter_text_not_digit [OF st] by simp
next
  case False
  then show ?thesis
    using filter_text_not_digit [OF tp] by simp
qed


lemma limit_opt:
  assumes lim: "limit_ok lim" and tp: "filter_ok ''topic'' tp" and st: "filter_ok ''status'' st"
  shows "\<exists>xs. rmatch (Opt limit_group) (limit_text lim @ filter_text tp @ filter_text st, c)
            = (filter_text tp @ filter_text st,
               case limit_digits lim of None \<Rightarrow> c | Some n \<Rightarrow> c(1 \<mapsto> n)) # xs"
proof (cases lim)
  case None
  have "rmatch limit_group (filter_text tp @ filter_text st, c) = []"
    using tp st by (rule limit_group_on_parts)
  then have "rmatch (Opt limit_group) (filter_text tp @ filter_text st, c)
               = [(filter_text tp @ filter_text st, c)]"
    by (rule opt_none)
  then show ?thesis
    by (simp only: None limit_text.simps limit_digits.simps append_Nil option.case) blast
next
  case (Some f)
  obtain w d where f: "f = (w, d)" by (cases f)
  have ok: "whitespace w" "uint_literal d"
    using lim by (simp_all add: Some f)
  have stop: "filter_text tp @ filter_text st = []
                \<or> \<not> is_digit (hd (filter_text tp @ filter_text st))"
    using tp st by (rule parts_not_digit)
  from limit_group_match [OF ok stop, of c]
  obtain tl where "rmatch limit_group (w @ d @ filter_text tp @ filter_text st, c)
                     = (filter_text tp @ filter_text st, c(1 \<mapsto> d)) # tl"
    by blast
  then have "rmatch (Opt limit_group) (w @ d @ filter_text tp @ filter_text st, c)
               = (filter_text tp @ filter_text st, c(1 \<mapsto> d))
                   # (tl @ [(w @ d @ filter_text tp @ filter_text st, c)])"
    by (rule opt_head)
  then show ?thesis
    by (simp only: Some f limit_text.simps limit_digits.simps append_assoc option.case) blast
qed


lemma topic_tail_captures:
  assumes tp: "filter_ok ''topic'' tp" and st: "filter_ok ''status'' st"
  shows "\<exists>tl c'. rmatch (Seq (Opt (filter_group 2 ''topic'')) (Seq (Opt (filter_group 3 ''status'')) Eos))
               (filter_text tp @ filter_text st, c) = ([], c') # tl
            \<and> c' 1 = c 1
            \<and> c' 2 = (case filter_digits tp of None \<Rightarrow> c 2 | Some d \<Rightarrow> Some d)
            \<and> c' 3 = (case filter_digits st of None \<Rightarrow> c 3 | Some d \<Rightarrow> Some d)"
proof -
  from topic_tail [OF tp st, of c] obtain tl c'
    where m: "rmatch (Seq (Opt (filter_group 2 ''topic'')) (Seq (Opt (filter_group 3 ''status'')) Eos))
               (filter_text tp @ filter_text st, c) = ([], c') # tl"
      and c': "c' = (case filter_digits st of
                     None \<Rightarrow> (case filter_digits tp of None \<Rightarrow> c | Some d \<Rightarrow> c(2 \<mapsto> d))
                   | Some e \<Rightarrow> (case filter_digits tp of None \<Rightarrow> c | Some d \<Rightarrow> c(2 \<mapsto> d))(3 \<mapsto> e))"
    by blast
  have "c' 1 = c 1"
    and "c' 2 = (case filter_digits tp of None \<Rightarrow> c 2 | Some d \<Rightarrow> Some d)"
    and "c' 3 = (case filter_digits st of None \<Rightarrow> c 3 | Some d \<Rightarrow> Some d)"
    unfolding c' by (cases "filter_digits tp"; cases "filter_digits st"; simp)+
  with m show ?thesis by blast
qed

lemma limit_tail_captures:
  assumes lim: "limit_ok lim" and tp: "filter_ok ''topic'' tp" and st: "filter_ok ''status'' st"
  shows "\<exists>tl c'. rmatch (Seq (Opt limit_group)
                  (Seq (Opt (filter_group 2 ''topic'')) (Seq (Opt (filter_group 3 ''status'')) Eos)))
               (limit_text lim @ filter_text tp @ filter_text st, Map.empty) = ([], c') # tl
            \<and> c' 1 = limit_digits lim \<and> c' 2 = filter_digits tp \<and> c' 3 = filter_digits st"
proof -
  let ?c1 = "(case limit_digits lim of None \<Rightarrow> Map.empty | Some n \<Rightarrow> Map.empty(1 \<mapsto> n)) :: captures"
  from limit_opt [OF lim tp st, of Map.empty] obtain xs
    where o: "rmatch (Opt limit_group) (limit_text lim @ filter_text tp @ filter_text st, Map.empty)
                = (filter_text tp @ filter_text st, ?c1) # xs"
    by blast
  from topic_tail_captures [OF tp st, of ?c1] obtain tl c'
    where t: "rmatch (Seq (Opt (filter_group 2 ''topic'')) (Seq (Opt (filter_group 3 ''status'')) Eos))
               (filter_text tp @ filter_text st, ?c1) = ([], c') # tl"
      and c1: "c' 1 = ?c1 1"
      and c2: "c' 2 = (case filter_digits tp of None \<Rightarrow> ?c1 2 | Some d \<Rightarrow> Some d)"
      and c3: "c' 3 = (case filter_digits st of None \<Rightarrow> ?c1 3 | Some d \<Rightarrow> Some d)"
    by blast
  have a1: "c' 1 = limit_digits lim"
    unfolding c1 by (cases "limit_digits lim") simp_all
  have a2: "c' 2 = filter_digits tp"
    unfolding c2 by (cases "limit_digits lim"; cases "filter_digits tp") simp_all
  have a3: "c' 3 = filter_digits st"
    unfolding c3 by (cases "limit_digits lim"; cases "filter_digits st") simp_all
  from seq_head [OF o t] obtain tl' where
    "rmatch (Seq (Opt limit_group)
                  (Seq (Opt (filter_group 2 ''topic'')) (Seq (Opt (filter_group 3 ''status'')) Eos)))
               (limit_text lim @ filter_text tp @ filter_text st, Map.empty) = ([], c') # tl'"
    by blast
  with a1 a2 a3 show ?thesis by blast
qed

text \<open>The captures of a command of the grammar.\<close>

lemma grammar_match:
  assumes "grammatical kw lim tp st"
  shows "\<exists>c. regex_match proposals_re (command_text kw lim tp st) = Some c
            \<and> c 1 = limit_digits lim \<and> c 2 = filter_digits tp \<and> c 3 = filter_digits st"
proof -
  have kw: "keyword ''!proposals'' kw" and lim: "limit_ok lim"
    and tp: "filter_ok ''topic'' tp" and st: "filter_ok ''status'' st"
    using assms by (simp_all add: grammatical_def)
  let ?T = "limit_text lim @ filter_text tp @ filter_text st"
  let ?rest = "Seq (Opt limit_group)
                 (Seq (Opt (filter_group 2 ''topic'')) (Seq (Opt (filter_group 3 ''status'')) Eos))"
  have "rmatch (Lit (ascii ''!proposals'')) (kw @ ?T, Map.empty) = [(?T, Map.empty)]"
    using kw by (rule lit_keyword)
  then have whole: "rmatch proposals_re (kw @ ?T, Map.empty) = rmatch ?rest (?T, Map.empty)"
    unfolding proposals_re_def by (rule seq_single)
  from limit_tail_captures [OF lim tp st] obtain tl c
    where t: "rmatch ?rest (?T, Map.empty) = ([], c) # tl"
      and c: "c 1 = limit_digits lim" "c 2 = filter_digits tp" "c 3 = filter_digits st"
    by blast
  have "regex_match proposals_re (command_text kw lim tp st) = Some c"
    unfolding regex_match_def command_text_def whole t by simp
  with c show ?thesis by blast
qed

lemma limit_digits_ok: "limit_ok lim \<Longrightarrow> limit_digits lim = Some d \<Longrightarrow> uint_literal d"
  by (cases lim) auto

lemma filter_digits_ok: "filter_ok name x \<Longrightarrow> filter_digits x = Some d \<Longrightarrow> uint_literal d"
  by (cases x) auto

lemma parseInt_uint: "uint_literal d \<Longrightarrow> parseInt d (Some 10) = to_double (decimal_value d)"
  by (simp add: uint_literal_def parseInt_digits)

lemma group_digits_of:
  assumes "c i = x" and "\<And>d. x = Some d \<Longrightarrow> uint_literal d"
  shows "group (Some c) i = x"
  using assms by (cases x) (auto simp: group_def uint_literal_def)

lemma grammar_parse:
  assumes "grammatical kw lim tp st"
  shows "parse_command (command_text kw lim tp st)
           = (case limit_digits lim of None \<Rightarrow> Num 10 | Some d \<Rightarrow> to_double (decimal_value d),
              map_option (\<lambda>d. to_double (decimal_value d)) (filter_digits tp),
              map_option (\<lambda>d. to_double (decimal_value d)) (filter_digits st))"
proof -
  have lim: "limit_ok lim" and tp: "filter_ok ''topic'' tp" and st: "filter_ok ''status'' st"
    using assms by (simp_all add: grammatical_def)
  from grammar_match [OF assms] obtain c
    where m: "regex_match proposals_re (command_text kw lim tp st) = Some c"
      and c: "c 1 = limit_digits lim" "c 2 = filter_digits tp" "c 3 = filter_digits st"
    by blast
  have g1: "group (Some c) 1 = limit_digits lim"
    using c(1) limit_digits_ok [OF lim] by (rule group_digits_of)
  have g2: "group (Some c) 2 = filter_digits tp"
    using c(2) filter_digits_ok [OF tp] by (rule group_digits_of)
  have g3: "group (Some c) 3 = filter_digits st"
    using c(3) filter_digits_ok [OF st] by (rule group_digits_of)
  have p1: "(case limit_digits lim of None \<Rightarrow> Num 10 | Some g \<Rightarrow> parseInt g (Some 10))
              = (case limit_digits lim of None \<Rightarrow> Num 10 | Some d \<Rightarrow> to_double (decimal_value d))"
    using limit_digits_ok [OF lim] by (cases "limit_digits lim") (simp_all add: parseInt_uint)
  have p2: "(case filter_digits tp of None \<Rightarrow> None | Some g \<Rightarrow> Some (parseInt g (Some 10)))
              = map_option (\<lambda>d. to_double (decimal_value d)) (filter_digits tp)"
    using filter_digits_ok [OF tp] by (cases "filter_digits tp") (simp_all add: parseInt_uint)
  have p3: "(case filter_digits st of None \<Rightarrow> None | Some g \<Rightarrow> Some (parseInt g (Some 10)))
              = map_option (\<lambda>d. to_double (decimal_value d)) (filter_digits st)"
    using filter_digits_ok [OF st] by (cases "filter_digits st") (simp_all add: parseInt_uint)
  show ?thesis
    unfolding parse_command_def m Let_def g1 g2 g3
    by (simp only: p1 p2 p3)
qed

lemmas grammar_ev = grammatical_def keyword_def whitespace_def uint_literal_def ascii_def
  canonicalize_def is_space_def is_digit_def command_text_def

text \<open>
  C3, as amended. For every command of the grammar (keywords in any letter case, parts
  separated by white space, in the fixed order) the parsed limit, topic and status are
  the Numbers nearest to the base-10 values of the digits supplied, hence those values
  themselves whenever they are at most \<open>2 ^ 53\<close>; a missing limit gives 10 and a missing
  topic or status leaves the filter unset; and the parsed limit, 0 included, is the
  request's \<open>limit\<close> field unchanged.
\<close>

theorem grammar_parse_values:
  assumes "grammatical kw lim tp st"
    and "parse_command (command_text kw lim tp st) = (l, t, s)"
  shows "(limit_digits lim = None \<longrightarrow> l = Num 10)
       \<and> (\<forall>d. limit_digits lim = Some d \<longrightarrow> l = to_double (decimal_value d))
       \<and> (filter_digits tp = None \<longrightarrow> t = None)
       \<and> (\<forall>d. filter_digits tp = Some d \<longrightarrow> t = Some (to_double (decimal_value d)))
       \<and> (filter_digits st = None \<longrightarrow> s = None)
       \<and> (\<forall>d. filter_digits st = Some d \<longrightarrow> s = Some (to_double (decimal_value d)))
       \<and> (\<forall>n. n \<le> 2 ^ 53 \<longrightarrow> to_double n = Num (int n))
       \<and> (\<forall>sf tf. limit (build_request (Some l) sf tf) = l)"
proof -
  have "(l, t, s)
          = (case limit_digits lim of None \<Rightarrow> Num 10 | Some d \<Rightarrow> to_double (decimal_value d),
             map_option (\<lambda>d. to_double (decimal_value d)) (filter_digits tp),
             map_option (\<lambda>d. to_double (decimal_value d)) (filter_digits st))"
    using grammar_parse [OF assms(1)] assms(2) by simp
  then have l: "l = (case limit_digits lim of None \<Rightarrow> Num 10 | Some d \<Rightarrow> to_double (decimal_value d))"
    and t: "t = map_option (\<lambda>d. to_double (decimal_value d)) (filter_digits tp)"
    and s: "s = map_option (\<lambda>d. to_double (decimal_value d)) (filter_digits st)"
    by simp_all
  have "\<forall>sf tf. limit (build_request (Some l) sf tf) = l"
    by (simp add: build_request_def)
  moreover have "\<forall>n. n \<le> 2 ^ 53 \<longrightarrow> to_double n = Num (int n)"
    using to_double_exact_le by blast
  ultimately show ?thesis
    by (simp add: l t s)
qed

lemma sample_command_grammatical:
  "grammatical (ascii ''!Proposals'') (Some (ascii '' '', ascii ''0''))
     (Some (ascii ''  '', ascii ''TOPIC'', ascii '' '', ascii ''17'')) None"
  by (simp add: grammar_ev)

lemma sample_command_text:
  "command_text (ascii ''!Proposals'') (Some (ascii '' '', ascii ''0''))
     (Some (ascii ''  '', ascii ''TOPIC'', ascii '' '', ascii ''17'')) None
     = ascii ''!Proposals 0  TOPIC 17''"
  by (simp add: command_text_def ascii_def)

lemma sample_command_parse:
  "parse_command (ascii ''!Proposals 0  TOPIC 17'') = (Num 0, Some (Num 17), None)"
  by (simp add: parse_ev)

theorem grammar_parse_values_witness:
  "grammatical (ascii ''!Proposals'') (Some (ascii '' '', ascii ''0''))
     (Some (ascii ''  '', ascii ''TOPIC'', ascii '' '', ascii ''17'')) None
   \<and> parse_command (command_text (ascii ''!Proposals'') (Some (ascii '' '', ascii ''0''))
        (Some (ascii ''  '', ascii ''TOPIC'', ascii '' '', ascii ''17'')) None)
       = (Num 0, Some (Num 17), None)
   \<and> Num 0 = to_double (decimal_value (ascii ''0''))
   \<and> Some (Num 17) = Some (to_double (decimal_value (ascii ''17'')))
   \<and> limit (build_request (Some (Num 0)) None (Some (Num 17))) = Num 0"
proof -
  have p: "parse_command (command_text (ascii ''!Proposals'') (Some (ascii '' '', ascii ''0''))
        (Some (ascii ''  '', ascii ''TOPIC'', ascii '' '', ascii ''17'')) None)
       = (Num 0, Some (Num 17), None)"
    by (simp only: sample_command_text sample_command_parse)
  note w = grammar_parse_values [OF sample_command_grammatical p]
  have a: "Num 0 = to_double (decimal_value (ascii ''0''))"
    using w by simp
  have b: "Some (Num 17) = Some (to_double (decimal_value (ascii ''17'')))"
    using w by simp
  have c: "limit (build_request (Some (Num 0)) None (Some (Num 17))) = Num 0"
    using w by blast
  show ?thesis
    by (intro conjI) (rule sample_command_grammatical p a b c)+
qed

text \<open>
  The limit \<open>9007199254740993\<close>, which is \<open>2 ^ 53 + 1\<close>, parses to
  \<open>9007199254740992\<close>.
\<close>

theorem large_limit_counterexample:
  "grammatical (ascii ''!proposals'') (Some (ascii '' '', ascii ''9007199254740993'')) None None
   \<and> command_text (ascii ''!proposals'') (Some (ascii '' '', ascii ''9007199254740993'')) None None
       = ascii ''!proposals 9007199254740993''
   \<and> decimal_value (ascii ''9007199254740993'') = 9007199254740993
   \<and> parse_command (ascii ''!proposals 9007199254740993'') = (Num 9007199254740992, None, None)"
proof -
  have "grammatical (ascii ''!proposals'') (Some (ascii '' '', ascii ''9007199254740993'')) None None"
    by (simp add: grammar_ev)
  moreover have "command_text (ascii ''!proposals'') (Some (ascii '' '', ascii ''9007199254740993'')) None None
       = ascii ''!proposals 9007199254740993''"
    by (simp add: command_text_def ascii_def)
  moreover have "decimal_value (ascii ''9007199254740993'') = 9007199254740993"
    by (simp add: decimal_value_def ascii_def)
  moreover have "parse_command (ascii ''!proposals 9007199254740993'') = (Num 9007199254740992, None, None)"
    by (simp add: parse_ev Let_def bitlen.simps)
  ultimately show ?thesis by simp
qed

subsection \<open>Texts the pattern does not match\<close>

text \<open>What each construct of the pattern consumes.\<close>

lemma lit_consumes:
  assumes "(s', c') \<in> set (rmatch (Lit (ascii w)) (s, c))"
  shows "\<exists>k. s = k @ s' \<and> keyword w k"
proof -
  let ?n = "length (ascii w)"
  from assms have a: "map canonicalize (take ?n s) = map canonicalize (ascii w)"
    and b: "s' = drop ?n s"
    by (auto split: if_splits)
  have "s = take ?n s @ s'"
    by (simp add: b)
  moreover have "keyword w (take ?n s)"
    using a by (simp add: keyword_def)
  ultimately show ?thesis by blast
qed

lemma plus_consumes:
  assumes "(s', c') \<in> set (rmatch (Plus k) (s, c))"
  shows "\<exists>w. s = w @ s' \<and> w \<noteq> [] \<and> list_all (in_class k) w \<and> c' = c"
proof -
  from assms obtain n where n: "1 \<le> n" "n \<le> length (takeWhile (in_class k) s)"
    and s': "s' = drop n s" and c': "c' = c"
    by auto
  have len: "n \<le> length s"
    using n(2) length_takeWhile_le [of "in_class k" s] by simp
  have "take n s = take n (takeWhile (in_class k) s)"
  proof -
    have "take n (takeWhile (in_class k) s @ dropWhile (in_class k) s)
            = take n (takeWhile (in_class k) s)
                @ take (n - length (takeWhile (in_class k) s)) (dropWhile (in_class k) s)"
      by (rule take_append)
    also have "\<dots> = take n (takeWhile (in_class k) s)"
      using n(2) by simp
    finally show ?thesis by (simp only: takeWhile_dropWhile_id)
  qed
  then have "set (take n s) \<subseteq> set (takeWhile (in_class k) s)"
    using set_take_subset by metis
  then have "list_all (in_class k) (take n s)"
    using set_takeWhileD by (fastforce simp: list_all_iff)
  moreover have "take n s \<noteq> []"
    using n(1) len by auto
  moreover have "s = take n s @ s'"
    by (simp add: s')
  ultimately show ?thesis
    using c' by blast
qed

lemma group_digits_consumes:
  assumes "(s', c') \<in> set (rmatch (Group i (Plus Digit)) (s, c))"
  shows "\<exists>d. s = d @ s' \<and> uint_literal d"
proof -
  from assms obtain c'' where "(s', c'') \<in> set (rmatch (Plus Digit) (s, c))"
    by (auto simp del: rmatch.simps(2))
  from plus_consumes [OF this] show ?thesis
    by (auto simp: uint_literal_def list_all_iff)
qed

lemma seq_consumes:
  assumes "x \<in> set (rmatch (Seq r1 r2) st)"
  shows "\<exists>mid. mid \<in> set (rmatch r1 st) \<and> x \<in> set (rmatch r2 mid)"
  using assms by auto

lemma opt_consumes:
  assumes "x \<in> set (rmatch (Opt r) st)"
  shows "x \<in> set (rmatch r st) \<or> x = st"
  using assms by auto

lemma limit_group_consumes:
  assumes "(s', c') \<in> set (rmatch limit_group (s, c))"
  shows "\<exists>w d. s = w @ d @ s' \<and> whitespace w \<and> uint_literal d"
proof -
  from assms obtain m cm where m: "(m, cm) \<in> set (rmatch (Plus Space) (s, c))"
    and d: "(s', c') \<in> set (rmatch (Group 1 (Plus Digit)) (m, cm))"
    unfolding limit_group_def using seq_consumes by (metis surj_pair)
  from plus_consumes [OF m] obtain w where "s = w @ m" "w \<noteq> []" "list_all (in_class Space) w"
    by blast
  moreover from group_digits_consumes [OF d] obtain dd where "m = dd @ s'" "uint_literal dd"
    by blast
  ultimately show ?thesis
    by (auto simp: whitespace_def list_all_iff)
qed

lemma filter_group_consumes:
  assumes "(s', c') \<in> set (rmatch (filter_group i name) (s, c))"
  shows "\<exists>w1 k w2 d. s = w1 @ k @ w2 @ d @ s' \<and> filter_ok name (Some (w1, k, w2, d))"
proof -
  let ?r3 = "Seq (Plus Space) (Group i (Plus Digit))"
  let ?r2 = "Seq (Lit (ascii name)) ?r3"
  from assms obtain m1 c1 where m1: "(m1, c1) \<in> set (rmatch (Plus Space) (s, c))"
    and a1: "(s', c') \<in> set (rmatch ?r2 (m1, c1))"
    unfolding filter_group_def using seq_consumes by (metis surj_pair)
  from a1 obtain m2 c2 where m2: "(m2, c2) \<in> set (rmatch (Lit (ascii name)) (m1, c1))"
    and a2: "(s', c') \<in> set (rmatch ?r3 (m2, c2))"
    using seq_consumes by (metis surj_pair)
  from a2 obtain m3 c3 where m3: "(m3, c3) \<in> set (rmatch (Plus Space) (m2, c2))"
    and a3: "(s', c') \<in> set (rmatch (Group i (Plus Digit)) (m3, c3))"
    using seq_consumes by (metis surj_pair)
  from plus_consumes [OF m1] obtain w1 where w1: "s = w1 @ m1" "w1 \<noteq> []" "list_all (in_class Space) w1"
    by blast
  from lit_consumes [OF m2] obtain k where k: "m1 = k @ m2" "keyword name k"
    by blast
  from plus_consumes [OF m3] obtain w2 where w2: "m2 = w2 @ m3" "w2 \<noteq> []" "list_all (in_class Space) w2"
    by blast
  from group_digits_consumes [OF a3] obtain d where d: "m3 = d @ s'" "uint_literal d"
    by blast
  have "s = w1 @ k @ w2 @ d @ s'"
    by (simp add: w1(1) k(1) w2(1) d(1))
  moreover have "filter_ok name (Some (w1, k, w2, d))"
    using w1 k w2 d by (simp add: whitespace_def list_all_iff)
  ultimately show ?thesis by blast
qed

lemma opt_limit_consumes:
  assumes "(s', c') \<in> set (rmatch (Opt limit_group) (s, c))"
  shows "\<exists>lim. s = limit_text lim @ s' \<and> limit_ok lim"
proof -
  from opt_consumes [OF assms] show ?thesis
  proof
    assume "(s', c') \<in> set (rmatch limit_group (s, c))"
    from limit_group_consumes [OF this] obtain w d
      where "s = w @ d @ s'" "whitespace w" "uint_literal d"
      by blast
    then have "s = limit_text (Some (w, d)) @ s' \<and> limit_ok (Some (w, d))"
      by simp
    then show ?thesis by blast
  next
    assume "(s', c') = (s, c)"
    then have "s = limit_text None @ s' \<and> limit_ok None"
      by simp
    then show ?thesis by blast
  qed
qed

lemma opt_filter_consumes:
  assumes "(s', c') \<in> set (rmatch (Opt (filter_group i name)) (s, c))"
  shows "\<exists>x. s = filter_text x @ s' \<and> filter_ok name x"
proof -
  from opt_consumes [OF assms] show ?thesis
  proof
    assume "(s', c') \<in> set (rmatch (filter_group i name) (s, c))"
    from filter_group_consumes [OF this] obtain w1 k w2 d
      where "s = w1 @ k @ w2 @ d @ s'" "filter_ok name (Some (w1, k, w2, d))"
      by blast
    then have "s = filter_text (Some (w1, k, w2, d)) @ s' \<and> filter_ok name (Some (w1, k, w2, d))"
      by simp
    then show ?thesis by blast
  next
    assume "(s', c') = (s, c)"
    then have "s = filter_text None @ s' \<and> filter_ok name None"
      by simp
    then show ?thesis by blast
  qed
qed

text \<open>A text the pattern matches is a command of the grammar.\<close>

lemma match_is_command:
  assumes "regex_match proposals_re msg \<noteq> None"
  shows "\<exists>kw lim tp st. grammatical kw lim tp st \<and> msg = command_text kw lim tp st"
proof -
  let ?r3 = "Seq (Opt (filter_group 3 ''status'')) Eos"
  let ?r2 = "Seq (Opt (filter_group 2 ''topic'')) ?r3"
  let ?r1 = "Seq (Opt limit_group) ?r2"
  from assms have "rmatch proposals_re (msg, Map.empty) \<noteq> []"
    by (auto simp: regex_match_def)
  then have "hd (rmatch proposals_re (msg, Map.empty)) \<in> set (rmatch proposals_re (msg, Map.empty))"
    by (rule hd_in_set)
  moreover obtain e ce where "hd (rmatch proposals_re (msg, Map.empty)) = (e, ce)"
    by (cases "hd (rmatch proposals_re (msg, Map.empty))")
  ultimately have e: "(e, ce) \<in> set (rmatch proposals_re (msg, Map.empty))"
    by simp
  from e obtain m0 c0 where m0: "(m0, c0) \<in> set (rmatch (Lit (ascii ''!proposals'')) (msg, Map.empty))"
    and a0: "(e, ce) \<in> set (rmatch ?r1 (m0, c0))"
    unfolding proposals_re_def using seq_consumes by (metis surj_pair)
  from a0 obtain m1 c1 where m1: "(m1, c1) \<in> set (rmatch (Opt limit_group) (m0, c0))"
    and a1: "(e, ce) \<in> set (rmatch ?r2 (m1, c1))"
    using seq_consumes by (metis surj_pair)
  from a1 obtain m2 c2 where m2: "(m2, c2) \<in> set (rmatch (Opt (filter_group 2 ''topic'')) (m1, c1))"
    and a2: "(e, ce) \<in> set (rmatch ?r3 (m2, c2))"
    using seq_consumes by (metis surj_pair)
  from a2 obtain m3 c3 where m3: "(m3, c3) \<in> set (rmatch (Opt (filter_group 3 ''status'')) (m2, c2))"
    and a3: "(e, ce) \<in> set (rmatch Eos (m3, c3))"
    using seq_consumes by (metis surj_pair)
  from a3 have end3: "m3 = []"
    by (auto split: if_splits)
  from lit_consumes [OF m0] obtain kw where kw: "msg = kw @ m0" "keyword ''!proposals'' kw"
    by blast
  from opt_limit_consumes [OF m1] obtain lim where lim: "m0 = limit_text lim @ m1" "limit_ok lim"
    by blast
  from opt_filter_consumes [OF m2] obtain tp where tp: "m1 = filter_text tp @ m2" "filter_ok ''topic'' tp"
    by blast
  from opt_filter_consumes [OF m3] obtain st where st: "m2 = filter_text st @ m3" "filter_ok ''status'' st"
    by blast
  have "msg = command_text kw lim tp st"
    by (simp add: command_text_def kw(1) lim(1) tp(1) st(1) end3)
  moreover have "grammatical kw lim tp st"
    using kw(2) lim(2) tp(2) st(2) by (simp add: grammatical_def)
  ultimately show ?thesis by blast
qed

lemma pattern_is_grammar:
  "regex_match proposals_re msg \<noteq> None
     \<longleftrightarrow> (\<exists>kw lim tp st. grammatical kw lim tp st \<and> msg = command_text kw lim tp st)"
  using match_is_command grammar_match by (metis option.distinct(1))

lemma survives_unfiltered: "processable gov p \<Longrightarrow> survives gov None None p"
  by (auto simp: processable_def survives_def matches_filters_def)

lemma default_request:
  "build_request (Some (Num 10)) None None
     = \<lparr> include_reward_status = [], exclude_topic = [], include_status = [],
         omit_large_fields = None, before_proposal = None,
         include_all_manage_neuron_proposals = None, limit = Num 10 \<rparr>"
  by (simp add: build_request_def)

text \<open>
  C6. A text that is no command of the grammar is not matched by the pattern and is not
  rejected: limit 10, no topic filter and no status filter are taken, and \<open>get\<close> makes
  the list call with limit 10 and every filter list empty, fails only as that call
  fails, runs the loop without filters over what the call returns, and so returns a
  record for every listed proposal when each can be processed. This is the query of
  \<open>!proposals\<close>.
\<close>

theorem unmatched_text_defaults:
  assumes "\<not> (\<exists>kw lim tp st. grammatical kw lim tp st \<and> msg = command_text kw lim tp st)"
  shows "regex_match proposals_re msg = None
       \<and> parse_command msg = (Num 10, None, None)
       \<and> get gov msg =
           (case list_proposals gov
                   \<lparr> include_reward_status = [], exclude_topic = [], include_status = [],
                     omit_large_fields = None, before_proposal = None,
                     include_all_manage_neuron_proposals = None, limit = Num 10 \<rparr> of
              Inl e \<Rightarrow> Inl e
            | Inr response \<Rightarrow> proposals_loop gov None None response [])
       \<and> (\<forall>items.
             list_proposals gov
                 \<lparr> include_reward_status = [], exclude_topic = [], include_status = [],
                   omit_large_fields = None, before_proposal = None,
                   include_all_manage_neuron_proposals = None, limit = Num 10 \<rparr> = Inr items
             \<and> (\<forall>p \<in> set items. processable gov p)
             \<longrightarrow> get gov msg = Inr (map (projection gov) items))
       \<and> get gov msg = get gov (ascii ''!proposals'')"
proof -
  let ?req = "\<lparr> include_reward_status = [], exclude_topic = [], include_status = [],
                 omit_large_fields = None, before_proposal = None,
                 include_all_manage_neuron_proposals = None, limit = Num 10 \<rparr>"
  have none: "regex_match proposals_re msg = None"
    using assms pattern_is_grammar by blast
  then have parse: "parse_command msg = (Num 10, None, None)"
    by (simp add: parse_command_def group_def)
  have run: "get gov msg =
      (case list_proposals gov ?req of
         Inl e \<Rightarrow> Inl e
       | Inr response \<Rightarrow> proposals_loop gov None None response [])"
    by (simp add: get_def parse fetchProposals_def default_request)
  have all: "get gov msg = Inr (map (projection gov) items)"
    if l: "list_proposals gov ?req = Inr items" and ok: "\<forall>p \<in> set items. processable gov p"
    for items
  proof -
    have l': "list_proposals gov (build_request (Some (Num 10)) None None) = Inr items"
      using l by (simp only: default_request)
    have "filter (survives gov None None) items = items"
      using ok by (simp add: survives_unfiltered)
    with get_ok [OF parse l' ok] show ?thesis
      by simp
  qed
  have same: "get gov msg = get gov (ascii ''!proposals'')"
    by (simp add: get_def parse parse_default)
  from none parse run all same show ?thesis
    by blast
qed

lemma swapped_order_unmatched:
  "regex_match proposals_re (ascii ''!proposals status 4 topic 17'') = None"
  by (simp add: regex_match_def proposals_re_def limit_group_def filter_group_def ascii_def
      canonicalize_def is_space_def is_digit_def)

lemma other_text_unmatched: "regex_match proposals_re (ascii ''hello'') = None"
  by (simp add: regex_match_def proposals_re_def limit_group_def filter_group_def ascii_def
      canonicalize_def is_space_def is_digit_def)

theorem unmatched_text_defaults_witness:
  "\<not> (\<exists>kw lim tp st. grammatical kw lim tp st
          \<and> ascii ''!proposals status 4 topic 17'' = command_text kw lim tp st)
   \<and> parse_command (ascii ''!proposals status 4 topic 17'') = (Num 10, None, None)
   \<and> get sample_ledger (ascii ''!proposals status 4 topic 17'')
       = Inr (map (projection sample_ledger) sample_listing)
   \<and> get sample_ledger (ascii ''!proposals status 4 topic 17'')
       = get sample_ledger (ascii ''!proposals'')
   \<and> \<not> (\<exists>kw lim tp st. grammatical kw lim tp st \<and> ascii ''hello'' = command_text kw lim tp st)
   \<and> get sample_ledger (ascii ''hello'') = Inr (map (projection sample_ledger) sample_listing)"
proof -
  have a: "\<not> (\<exists>kw lim tp st. grammatical kw lim tp st
                \<and> ascii ''!proposals status 4 topic 17'' = command_text kw lim tp st)"
    using swapped_order_unmatched pattern_is_grammar by blast
  have b: "\<not> (\<exists>kw lim tp st. grammatical kw lim tp st \<and> ascii ''hello'' = command_text kw lim tp st)"
    using other_text_unmatched pattern_is_grammar by blast
  note wa = unmatched_text_defaults [OF a, of sample_ledger]
  note wb = unmatched_text_defaults [OF b, of sample_ledger]
  have a1: "parse_command (ascii ''!proposals status 4 topic 17'') = (Num 10, None, None)"
    using wa by blast
  have a2: "get sample_ledger (ascii ''!proposals status 4 topic 17'')
              = Inr (map (projection sample_ledger) sample_listing)"
    using wa sample_list sample_processable by blast
  have a3: "get sample_ledger (ascii ''!proposals status 4 topic 17'')
              = get sample_ledger (ascii ''!proposals'')"
    using wa by blast
  have b2: "get sample_ledger (ascii ''hello'') = Inr (map (projection sample_ledger) sample_listing)"
    using wb sample_list sample_processable by blast
  show ?thesis
    by (intro conjI) (rule a a1 a2 a3 b b2)+
qed

end
